theory Spec2Isabelle
  imports Complex_Main "HOL-Library.Option_ord" "HOL-Library.Multiset"
begin

section \<open>Values exchanged with the store and with the client\<close>

text \<open>
  The backend is an Express application over a PostgreSQL pool. A row returned by
  \<^verbatim>\<open>pool.query\<close> is a JavaScript object whose keys are the column names; it is modelled
  as an association list from column name to value. \<^verbatim>\<open>res.json\<close> sends such rows verbatim.
  Timestamps are microseconds since the epoch.
\<close>

datatype val = VNull | VInt int | VText string | VBool bool | VTime int

type_synonym row = "(string \<times> val) list"

text \<open>
  What \<^verbatim>\<open>res.json(x)\<close> is given: \<^verbatim>\<open>undefined\<close> (an empty body), one object, or an array
  of objects.
\<close>

datatype json = JUndefined | JRow row | JRows "row list"

text \<open>
  The body of an answer: the text of \<^verbatim>\<open>res.send\<close>, the value of \<^verbatim>\<open>res.json\<close>, the content of
  the file that \<^verbatim>\<open>res.sendFile\<close> streams, or the error page that the framework writes itself
  when a middleware or \<^verbatim>\<open>res.sendFile\<close> hands it an error.
\<close>

datatype body = Send string | Json json | Stream string | ErrorPage

record response =
  status :: nat
  body :: body

text \<open>
  A value of a field of the parsed JSON body: absent, \<^verbatim>\<open>null\<close>, a boolean, a number, a string,
  or an array or object. A number is given by the text that JavaScript prints for it
  (\<^verbatim>\<open>String(x)\<close>, which is \<^verbatim>\<open>0\<close> for both zeros), an array or object by the text that the
  driver sends to the store for it; nothing else of them matters to the handlers.
\<close>

datatype jsval =
  Undefined | JNull | JBool bool | JNumber string | JString string | JCompound string

text \<open>The test \<^verbatim>\<open>!x\<close> of JavaScript on such a value.\<close>

fun falsy :: "jsval \<Rightarrow> bool" where
  "falsy Undefined = True"
| "falsy JNull = True"
| "falsy (JBool b) = (\<not> b)"
| "falsy (JNumber t) = (t = ''0'')"
| "falsy (JString s) = (s = [])"
| "falsy (JCompound t) = False"

text \<open>
  The query parameter that the driver makes of a value: \<^verbatim>\<open>undefined\<close> and \<^verbatim>\<open>null\<close> become SQL
  NULL, everything else a text.
\<close>

fun pg_text :: "jsval \<Rightarrow> string option" where
  "pg_text Undefined = None"
| "pg_text JNull = None"
| "pg_text (JBool b) = Some (if b then ''true'' else ''false'')"
| "pg_text (JNumber t) = Some t"
| "pg_text (JString s) = Some s"
| "pg_text (JCompound t) = Some t"

fun opt_val :: "('a \<Rightarrow> val) \<Rightarrow> 'a option \<Rightarrow> val" where
  "opt_val f None = VNull"
| "opt_val f (Some x) = f x"

text \<open>\<^verbatim>\<open>result.rows[0]\<close>: \<^verbatim>\<open>undefined\<close> when no row came back.\<close>

fun rows0 :: "row list \<Rightarrow> json" where
  "rows0 [] = JUndefined"
| "rows0 (r # rs) = JRow r"

section \<open>Decimal numerals\<close>

text \<open>
  The decimal digits of a natural number, as \<^verbatim>\<open>Date.now() + '-'\<close> and the store's rendering
  of a \<^verbatim>\<open>COUNT(*)\<close> produce them, and \<^verbatim>\<open>parseInt\<close> on a string: the value of its longest
  prefix of decimal digits, NaN (\<open>None\<close>) when that prefix is empty. Signs and leading
  white space, which \<^verbatim>\<open>parseInt\<close> also accepts, do not occur in a count.
\<close>

definition digit_char :: "nat \<Rightarrow> char" where
  "digit_char d = ''0123456789'' ! d"

fun decimal :: "nat \<Rightarrow> string" where
  "decimal n = (if n < 10 then [digit_char n] else decimal (n div 10) @ [digit_char (n mod 10)])"

definition is_digit :: "char \<Rightarrow> bool" where
  "is_digit c = (c \<in> set ''0123456789'')"

definition digit_val :: "char \<Rightarrow> nat" where
  "digit_val c = of_char c - 48"

definition parseInt :: "string \<Rightarrow> nat option" where
  "parseInt s =
     (let ds = takeWhile is_digit s
      in if ds = [] then None else Some (foldl (\<lambda>acc c. 10 * acc + digit_val c) 0 ds))"

section \<open>JavaScript numbers\<close>

text \<open>
  A finite JavaScript Number is an IEEE 754 binary64 value; it is modelled by the rational
  it denotes. Every arithmetic operation returns the exact result rounded to the nearest
  value with a 53-bit significand, ties to the even significand. The exponent range is
  not bounded here: the model is exact for results of magnitude between \<open>2 ^ -1022\<close> and
  \<open>2 ^ 1024\<close>, far beyond any quotient of two row counts.
\<close>

fun bit_length :: "nat \<Rightarrow> nat" where
  "bit_length n = (if n = 0 then 0 else Suc (bit_length (n div 2)))"

text \<open>The exponent \<open>e\<close> with \<open>2 ^ e \<le> x < 2 ^ (e + 1)\<close>, for a positive \<open>x\<close>.\<close>

definition expo :: "rat \<Rightarrow> int" where
  "expo x =
     (if 1 \<le> x then int (bit_length (nat \<lfloor>x\<rfloor>)) - 1
      else - int (bit_length (nat (\<lceil>1 / x\<rceil> - 1))))"

definition round_half_even :: "rat \<Rightarrow> int" where
  "round_half_even x =
     (let f = \<lfloor>x\<rfloor>; r = x - of_int f
      in if r < 1 / 2 then f
         else if 1 / 2 < r then f + 1
         else if even f then f else f + 1)"

definition fl :: "rat \<Rightarrow> rat" where
  "fl x =
     (if x = 0 then 0
      else let u = 2 powi (expo \<bar>x\<bar> - 52)
           in sgn x * of_int (round_half_even (\<bar>x\<bar> / u)) * u)"

definition js_div :: "rat \<Rightarrow> rat \<Rightarrow> rat" where
  "js_div x y = fl (x / y)"

definition js_mul :: "rat \<Rightarrow> rat \<Rightarrow> rat" where
  "js_mul x y = fl (x * y)"

text \<open>\<^verbatim>\<open>Math.round\<close>: the nearest integer, a tie going up.\<close>

definition Math_round :: "rat \<Rightarrow> int" where
  "Math_round x = \<lfloor>x + 1 / 2\<rfloor>"

text \<open>The Number that a natural number read by \<^verbatim>\<open>parseInt\<close> becomes.\<close>

definition to_number :: "nat \<Rightarrow> rat" where
  "to_number n = fl (of_nat n)"

text \<open>
  \<^verbatim>\<open>totalTasks === 0 ? 0 : Math.round((doneTasks / totalTasks) * 100)\<close> on the two Numbers.
\<close>

definition percentage :: "rat \<Rightarrow> rat \<Rightarrow> int" where
  "percentage doneTasks totalTasks =
     (if totalTasks = 0 then 0 else Math_round (js_mul (js_div doneTasks totalTasks) 100))"

text \<open>
  The value the specification gives for a project with \<open>d\<close> done tasks out of \<open>t\<close>:
  zero without tasks, else \<open>100 * d / t\<close> rounded to the nearest integer, a half going up.
\<close>

definition spec_percentage :: "nat \<Rightarrow> nat \<Rightarrow> int" where
  "spec_percentage d t = (if t = 0 then 0 else \<lfloor>(100 * of_nat d / of_nat t :: rat) + 1 / 2\<rfloor>)"

section \<open>The store\<close>

text \<open>
  The three tables of \<^verbatim>\<open>createTables\<close>, with the nullable columns as options, and the
  sequences behind the three \<^verbatim>\<open>SERIAL\<close> keys. \<open>disk\<close> holds the files below \<^verbatim>\<open>uploads/\<close>, as
  pairs of path and content; the process is taken to run in the directory of its script,
  so that the relative path under which a file is written and the path that
  \<^verbatim>\<open>path.resolve(__dirname, filepath)\<close> reads name the same file.
\<close>

record project =
  p_id :: int
  p_name :: string
  p_description :: "string option"
  p_status :: "string option"
  p_created_at :: "int option"

record task =
  t_id :: int
  t_title :: string
  t_done :: "bool option"
  t_project_id :: "int option"

record file_meta =
  f_id :: int
  f_filename :: string
  f_filepath :: string
  f_project_id :: "int option"

record store =
  projects :: "project list"
  tasks :: "task list"
  files :: "file_meta list"
  projects_id_seq :: int
  tasks_id_seq :: int
  files_id_seq :: int
  disk :: "(string \<times> string) list"

text \<open>
  The ways in which the store refuses a statement of the handlers. Each of them is thrown
  by \<^verbatim>\<open>pool.query\<close> and caught by the handler, which answers 500. A failure of the
  connection ends in the same branch and is not modelled.
\<close>

datatype store_error =
  InvalidText | InvalidInteger | SequenceExhausted | NotNullViolation | ForeignKeyViolation

subsection \<open>Parameters\<close>

text \<open>
  Every parameter reaches the store as text and is read there as a value of the column's
  type, before the statement runs. A \<^verbatim>\<open>TEXT\<close> value must not contain the character U+0000.
\<close>

definition valid_text :: "string \<Rightarrow> bool" where
  "valid_text s = (CHR 0x00 \<notin> set s)"

definition valid_param :: "string option \<Rightarrow> bool" where
  "valid_param p = (case p of None \<Rightarrow> True | Some s \<Rightarrow> valid_text s)"

text \<open>
  An \<^verbatim>\<open>INTEGER\<close> is read from a decimal numeral: white space, an optional sign, at least one
  digit, white space, with a value from \<open>- 2 ^ 31\<close> to \<open>2 ^ 31 - 1\<close>. Every version of the store
  reads these, and refuses \<^verbatim>\<open>abc\<close>, the empty text and \<^verbatim>\<open>2147483648\<close>. Numerals in other
  bases or with digit separators, which the store reads only since its version 16, are
  left out here: they count as refused, and nothing is claimed below about a request that
  carries one. The path parameter \<^verbatim>\<open>req.params.id\<close> of a request is such a text.
\<close>

definition is_space :: "char \<Rightarrow> bool" where
  "is_space c = (c \<in> set [CHR '' '', CHR 0x09, CHR 0x0A, CHR 0x0B, CHR 0x0C, CHR 0x0D])"

definition pg_int4 :: "string \<Rightarrow> int option" where
  "pg_int4 txt =
     (let s1 = dropWhile is_space txt;
          negative = (case s1 of [] \<Rightarrow> False | c # cs \<Rightarrow> c = CHR ''-'');
          s2 = (case s1 of [] \<Rightarrow> [] | c # cs \<Rightarrow> if c = CHR ''-'' \<or> c = CHR ''+'' then cs else s1);
          ds = takeWhile is_digit s2;
          rest = dropWhile is_digit s2;
          n = int (foldl (\<lambda>acc c. 10 * acc + digit_val c) 0 ds);
          v = (if negative then - n else n)
      in if ds = [] \<or> \<not> list_all is_space rest \<or> v < - 2147483648 \<or> 2147483647 < v
         then None else Some v)"

subsection \<open>Rows\<close>

text \<open>The objects that \<^verbatim>\<open>SELECT *\<close> and \<^verbatim>\<open>RETURNING *\<close> yield, one key per column.\<close>

definition project_row :: "project \<Rightarrow> row" where
  "project_row p =
     [(''id'', VInt (p_id p)), (''name'', VText (p_name p)),
      (''description'', opt_val VText (p_description p)),
      (''status'', opt_val VText (p_status p)),
      (''created_at'', opt_val VTime (p_created_at p))]"

definition task_row :: "task \<Rightarrow> row" where
  "task_row t =
     [(''id'', VInt (t_id t)), (''title'', VText (t_title t)),
      (''done'', opt_val VBool (t_done t)),
      (''project_id'', opt_val VInt (t_project_id t))]"

definition file_row :: "file_meta \<Rightarrow> row" where
  "file_row f =
     [(''id'', VInt (f_id f)), (''filename'', VText (f_filename f)),
      (''filepath'', VText (f_filepath f)),
      (''project_id'', opt_val VInt (f_project_id f))]"

definition project_exists :: "store \<Rightarrow> int \<Rightarrow> bool" where
  "project_exists s pid = (\<exists>p \<in> set (projects s). p_id p = pid)"

text \<open>\<^verbatim>\<open>NOT x\<close> of SQL on a nullable boolean.\<close>

fun sql_not :: "bool option \<Rightarrow> bool option" where
  "sql_not None = None"
| "sql_not (Some b) = Some (\<not> b)"

text \<open>
  \<^verbatim>\<open>ORDER BY created_at DESC\<close>: NULL sorts before every timestamp, then later timestamps
  come first. The order among rows of equal \<^verbatim>\<open>created_at\<close> is the store's choice; the
  stable sort used here is one such choice.
\<close>

definition desc_key :: "project \<Rightarrow> int option" where
  "desc_key p = map_option uminus (p_created_at p)"

definition order_by_created_at_desc :: "project list \<Rightarrow> project list" where
  "order_by_created_at_desc ps = sort_key desc_key ps"

subsection \<open>The statements of the handlers\<close>

text \<open>
  A statement whose parameters the store cannot read changes nothing. An \<^verbatim>\<open>INSERT\<close> then
  draws the key from the sequence, which fails once the sequence has passed the largest
  \<^verbatim>\<open>INTEGER\<close>; a key that was drawn is spent even when the row is refused afterwards. Keys
  come from the sequences only, so a primary key never repeats (\<open>keys_fresh\<close> below).
\<close>

text \<open>\<^verbatim>\<open>SELECT * FROM projects ORDER BY created_at DESC\<close>\<close>

definition select_projects :: "store \<Rightarrow> store_error + row list" where
  "select_projects s = Inr (map project_row (order_by_created_at_desc (projects s)))"

text \<open>
  \<^verbatim>\<open>INSERT INTO projects (name, description) VALUES ($1, $2) RETURNING *\<close> at the time \<open>now\<close>
  of \<^verbatim>\<open>CURRENT_TIMESTAMP\<close>.
\<close>

definition insert_project ::
    "int \<Rightarrow> string option \<Rightarrow> string option \<Rightarrow> store \<Rightarrow> (store_error + row list) \<times> store" where
  "insert_project now name description s =
     (if \<not> valid_param name \<or> \<not> valid_param description then (Inl InvalidText, s)
      else if 2147483647 < projects_id_seq s then (Inl SequenceExhausted, s)
      else
        (let i = projects_id_seq s; s1 = s\<lparr>projects_id_seq := i + 1\<rparr>
         in case name of
              None \<Rightarrow> (Inl NotNullViolation, s1)
            | Some n \<Rightarrow>
                (let p = \<lparr>p_id = i, p_name = n, p_description = description,
                           p_status = Some ''new'', p_created_at = Some now\<rparr>
                 in (Inr [project_row p], s1\<lparr>projects := projects s1 @ [p]\<rparr>))))"

text \<open>\<^verbatim>\<open>SELECT * FROM tasks WHERE project_id = $1\<close>\<close>

definition select_tasks :: "store \<Rightarrow> string \<Rightarrow> store_error + row list" where
  "select_tasks s id_text =
     (case pg_int4 id_text of
        None \<Rightarrow> Inl InvalidInteger
      | Some pid \<Rightarrow> Inr (map task_row (filter (\<lambda>t. t_project_id t = Some pid) (tasks s))))"

text \<open>\<^verbatim>\<open>INSERT INTO tasks (title, project_id) VALUES ($1, $2) RETURNING *\<close>\<close>

definition insert_task ::
    "string option \<Rightarrow> string \<Rightarrow> store \<Rightarrow> (store_error + row list) \<times> store" where
  "insert_task title id_text s =
     (if \<not> valid_param title then (Inl InvalidText, s)
      else case pg_int4 id_text of
        None \<Rightarrow> (Inl InvalidInteger, s)
      | Some pid \<Rightarrow>
          if 2147483647 < tasks_id_seq s then (Inl SequenceExhausted, s)
          else
            (let i = tasks_id_seq s; s1 = s\<lparr>tasks_id_seq := i + 1\<rparr>
             in case title of
                  None \<Rightarrow> (Inl NotNullViolation, s1)
                | Some ti \<Rightarrow>
                    if \<not> project_exists s pid then (Inl ForeignKeyViolation, s1)
                    else (let t = \<lparr>t_id = i, t_title = ti, t_done = Some False,
                                     t_project_id = Some pid\<rparr>
                          in (Inr [task_row t], s1\<lparr>tasks := tasks s1 @ [t]\<rparr>))))"

text \<open>\<^verbatim>\<open>UPDATE tasks SET done = NOT done WHERE id = $1 RETURNING *\<close>\<close>

definition toggle :: "int \<Rightarrow> task \<Rightarrow> task" where
  "toggle i t = (if t_id t = i then t\<lparr>t_done := sql_not (t_done t)\<rparr> else t)"

definition update_task_done :: "string \<Rightarrow> store \<Rightarrow> (store_error + row list) \<times> store" where
  "update_task_done id_text s =
     (case pg_int4 id_text of
        None \<Rightarrow> (Inl InvalidInteger, s)
      | Some i \<Rightarrow>
          (let ts = map (toggle i) (tasks s)
           in (Inr (map task_row (filter (\<lambda>t. t_id t = i) ts)), s\<lparr>tasks := ts\<rparr>)))"

text \<open>
  \<^verbatim>\<open>SELECT COUNT(*) FROM tasks WHERE project_id = $1\<close>, and the same with
  \<^verbatim>\<open>AND done = true\<close>. The driver hands a count over as the text of its decimal digits.
\<close>

definition count_tasks :: "store \<Rightarrow> string \<Rightarrow> store_error + row list" where
  "count_tasks s id_text =
     (case pg_int4 id_text of
        None \<Rightarrow> Inl InvalidInteger
      | Some pid \<Rightarrow>
          Inr [[(''count'',
                 VText (decimal (length (filter (\<lambda>t. t_project_id t = Some pid) (tasks s)))))]])"

definition count_done_tasks :: "store \<Rightarrow> string \<Rightarrow> store_error + row list" where
  "count_done_tasks s id_text =
     (case pg_int4 id_text of
        None \<Rightarrow> Inl InvalidInteger
      | Some pid \<Rightarrow>
          Inr [[(''count'', VText (decimal (length
             (filter (\<lambda>t. t_project_id t = Some pid \<and> t_done t = Some True) (tasks s)))))]])"

text \<open>\<^verbatim>\<open>INSERT INTO files (filename, filepath, project_id) VALUES ($1, $2, $3)\<close>\<close>

definition insert_file ::
    "string \<Rightarrow> string \<Rightarrow> string \<Rightarrow> store \<Rightarrow> (store_error + row list) \<times> store" where
  "insert_file filename filepath id_text s =
     (if \<not> valid_text filename \<or> \<not> valid_text filepath then (Inl InvalidText, s)
      else case pg_int4 id_text of
        None \<Rightarrow> (Inl InvalidInteger, s)
      | Some pid \<Rightarrow>
          if 2147483647 < files_id_seq s then (Inl SequenceExhausted, s)
          else
            (let i = files_id_seq s; s1 = s\<lparr>files_id_seq := i + 1\<rparr>
             in if \<not> project_exists s pid then (Inl ForeignKeyViolation, s1)
                else (let f = \<lparr>f_id = i, f_filename = filename, f_filepath = filepath,
                                 f_project_id = Some pid\<rparr>
                      in (Inr [], s1\<lparr>files := files s1 @ [f]\<rparr>))))"

text \<open>\<^verbatim>\<open>SELECT id, filename FROM files WHERE project_id = $1\<close>\<close>

definition select_id_filename :: "store \<Rightarrow> string \<Rightarrow> store_error + row list" where
  "select_id_filename s id_text =
     (case pg_int4 id_text of
        None \<Rightarrow> Inl InvalidInteger
      | Some pid \<Rightarrow>
          Inr (map (\<lambda>f. [(''id'', VInt (f_id f)), (''filename'', VText (f_filename f))])
                 (filter (\<lambda>f. f_project_id f = Some pid) (files s))))"

text \<open>\<^verbatim>\<open>SELECT * FROM files WHERE id = $1\<close>\<close>

definition select_file :: "store \<Rightarrow> string \<Rightarrow> store_error + row list" where
  "select_file s id_text =
     (case pg_int4 id_text of
        None \<Rightarrow> Inl InvalidInteger
      | Some i \<Rightarrow> Inr (map file_row (filter (\<lambda>f. f_id f = i) (files s))))"

section \<open>The handlers\<close>

text \<open>
  A handler gets the path parameter \<^verbatim>\<open>req.params.id\<close> as the text it is, and the fields of
  the body as the JSON parser left them.
\<close>

definition respond :: "nat \<Rightarrow> body \<Rightarrow> response" where
  "respond c b = \<lparr>status = c, body = b\<rparr>"

subsection \<open>Uploads\<close>

text \<open>
  The part named \<^verbatim>\<open>file\<close> of a multipart request, and \<^verbatim>\<open>req.file\<close> as the disk storage of
  the upload middleware leaves it. The parser keeps the base name of the part's filename:
  what follows the last slash or backslash, and nothing if that is \<^verbatim>\<open>.\<close> or \<^verbatim>\<open>..\<close>; a part
  whose name is then empty is skipped, so that \<^verbatim>\<open>req.file\<close> stays undefined. The file is
  written to \<^verbatim>\<open>uploads/\<close> under the name \<^verbatim>\<open>Date.now() + '-' + file.originalname\<close>, where
  \<open>now\<close> is the clock in milliseconds; a file already at that path is replaced. A name that
  the file system refuses (U+0000 in it, or more than 255 bytes) makes the write fail; the
  middleware hands the error to the framework, which answers 500, and the handler does
  not run.
\<close>

record part =
  part_filename :: string
  part_content :: string

record req_file =
  originalname :: string
  path :: string

datatype upload = NoFile | WriteFailed | Stored req_file

definition basename :: "string \<Rightarrow> string" where
  "basename p =
     (let b = rev (takeWhile (\<lambda>c. c \<noteq> CHR ''/'' \<and> c \<noteq> CHR 0x5C) (rev p))
      in if b = ''..'' \<or> b = ''.'' then [] else b)"

definition storage_filename :: "nat \<Rightarrow> string \<Rightarrow> string" where
  "storage_filename now original = decimal now @ ''-'' @ original"

definition writable_name :: "string \<Rightarrow> bool" where
  "writable_name n = (CHR 0x00 \<notin> set n \<and> length n \<le> 255)"

definition write_file :: "string \<Rightarrow> string \<Rightarrow> (string \<times> string) list \<Rightarrow> (string \<times> string) list" where
  "write_file p c d = (p, c) # filter (\<lambda>e. fst e \<noteq> p) d"

definition upload_single :: "nat \<Rightarrow> part option \<Rightarrow> store \<Rightarrow> upload \<times> store" where
  "upload_single now prt s =
     (case prt of
        None \<Rightarrow> (NoFile, s)
      | Some u \<Rightarrow>
          (let original = basename (part_filename u)
           in if original = [] then (NoFile, s)
              else if \<not> writable_name (storage_filename now original) then (WriteFailed, s)
              else
                (let p = ''uploads/'' @ storage_filename now original
                 in (Stored \<lparr>originalname = original, path = p\<rparr>,
                     s\<lparr>disk := write_file p (part_content u) (disk s)\<rparr>))))"

text \<open>\<^verbatim>\<open>POST /projects/:id/upload\<close>\<close>

definition post_upload :: "nat \<Rightarrow> string \<Rightarrow> part option \<Rightarrow> store \<Rightarrow> response \<times> store" where
  "post_upload now id_text prt s =
     (case upload_single now prt s of
        (WriteFailed, s1) \<Rightarrow> (respond 500 ErrorPage, s1)
      | (NoFile, s1) \<Rightarrow> (respond 400 (Send ''No file uploaded''), s1)
      | (Stored f, s1) \<Rightarrow>
          (case insert_file (originalname f) (path f) id_text s1 of
             (Inl e, s2) \<Rightarrow> (respond 500 (Send ''Upload error''), s2)
           | (Inr rows, s2) \<Rightarrow> (respond 201 (Send ''File uploaded''), s2)))"

text \<open>\<^verbatim>\<open>GET /projects/:id/files\<close>\<close>

definition get_files :: "store \<Rightarrow> string \<Rightarrow> response" where
  "get_files s id_text =
     (case select_id_filename s id_text of
        Inl e \<Rightarrow> respond 500 (Send ''Error fetching files'')
      | Inr rows \<Rightarrow> respond 200 (Json (JRows rows)))"

text \<open>
  \<^verbatim>\<open>res.sendFile\<close> on the file stored under the path \<open>p\<close>: its content with status 200, and
  when there is no file at that path, an error that the framework answers with its own
  page and the status 404. The request is taken to carry no range and no conditional
  headers, on which the framework would answer with a part of the file or with 304.
\<close>

definition sendFile :: "(string \<times> string) list \<Rightarrow> string \<Rightarrow> response" where
  "sendFile d p =
     (case map_of d p of
        Some c \<Rightarrow> respond 200 (Stream c)
      | None \<Rightarrow> respond 404 ErrorPage)"

text \<open>
  \<^verbatim>\<open>GET /files/:id/view\<close>. \<^verbatim>\<open>path.resolve\<close> throws on a path that is not a string, which
  the handler catches.
\<close>

definition get_file_view :: "store \<Rightarrow> string \<Rightarrow> response" where
  "get_file_view s id_text =
     (case select_file s id_text of
        Inl e \<Rightarrow> respond 500 (Send ''Error viewing file'')
      | Inr rows \<Rightarrow>
          (case rows of
             [] \<Rightarrow> respond 404 (Send ''File not found'')
           | r # rs \<Rightarrow>
               (case map_of r ''filepath'' of
                  Some (VText p) \<Rightarrow> sendFile (disk s) p
                | _ \<Rightarrow> respond 500 (Send ''Error viewing file''))))"

subsection \<open>Completion\<close>

text \<open>
  \<^verbatim>\<open>parseInt(rows[0].count)\<close>: reading \<^verbatim>\<open>rows[0].count\<close> throws when there is no row
  (the outer \<open>None\<close>); the inner \<open>None\<close> is NaN.
\<close>

definition parse_count :: "row list \<Rightarrow> nat option option" where
  "parse_count rows =
     (case rows of
        [] \<Rightarrow> None
      | r # rs \<Rightarrow> Some (case map_of r ''count'' of Some (VText c) \<Rightarrow> parseInt c | _ \<Rightarrow> None))"

text \<open>
  The value of \<^verbatim>\<open>percentage\<close> as \<^verbatim>\<open>res.json\<close> prints it; NaN is printed as \<^verbatim>\<open>null\<close>.
\<close>

definition percentage_val :: "nat option \<Rightarrow> nat option \<Rightarrow> val" where
  "percentage_val doneTasks totalTasks =
     (case totalTasks of
        None \<Rightarrow> VNull
      | Some t \<Rightarrow>
          (case doneTasks of
             None \<Rightarrow> if to_number t = 0 then VInt 0 else VNull
           | Some d \<Rightarrow> VInt (percentage (to_number d) (to_number t))))"

text \<open>\<^verbatim>\<open>GET /projects/:id/completion\<close>\<close>

definition get_completion :: "store \<Rightarrow> string \<Rightarrow> response" where
  "get_completion s id_text =
     (case count_tasks s id_text of
        Inl e \<Rightarrow> respond 500 (Send ''Error calculating completion'')
      | Inr total_rows \<Rightarrow>
          (case count_done_tasks s id_text of
             Inl e \<Rightarrow> respond 500 (Send ''Error calculating completion'')
           | Inr done_rows \<Rightarrow>
               (case parse_count total_rows of
                  None \<Rightarrow> respond 500 (Send ''Error calculating completion'')
                | Some totalTasks \<Rightarrow>
                    (case parse_count done_rows of
                       None \<Rightarrow> respond 500 (Send ''Error calculating completion'')
                     | Some doneTasks \<Rightarrow>
                         respond 200 (Json (JRow
                           [(''percentage'', percentage_val doneTasks totalTasks)]))))))"

subsection \<open>Projects\<close>

text \<open>The fields that the handlers read from the JSON body of \<^verbatim>\<open>POST /projects\<close>.\<close>

record project_req =
  req_name :: jsval
  req_description :: jsval
  req_status :: jsval

text \<open>\<^verbatim>\<open>GET /projects\<close>\<close>

definition get_projects :: "store \<Rightarrow> response" where
  "get_projects s =
     (case select_projects s of
        Inl e \<Rightarrow> respond 500 (Send ''Server Error'')
      | Inr rows \<Rightarrow> respond 200 (Json (JRows rows)))"

text \<open>\<^verbatim>\<open>POST /projects\<close>; only \<^verbatim>\<open>name\<close> and \<^verbatim>\<open>description\<close> are read from the body.\<close>

definition post_projects :: "int \<Rightarrow> project_req \<Rightarrow> store \<Rightarrow> response \<times> store" where
  "post_projects now req s =
     (if falsy (req_name req) \<or> falsy (req_description req)
      then (respond 400 (Json (JRow [(''error'', VText ''Name and description are required'')])), s)
      else (case insert_project now (pg_text (req_name req)) (pg_text (req_description req)) s of
              (Inl e, s1) \<Rightarrow> (respond 500 (Send ''Server Error''), s1)
            | (Inr rows, s1) \<Rightarrow> (respond 201 (Json (rows0 rows)), s1)))"

subsection \<open>Tasks\<close>

text \<open>\<^verbatim>\<open>GET /projects/:id/tasks\<close>\<close>

definition get_tasks :: "store \<Rightarrow> string \<Rightarrow> response" where
  "get_tasks s id_text =
     (case select_tasks s id_text of
        Inl e \<Rightarrow> respond 500 (Send ''Error fetching tasks'')
      | Inr rows \<Rightarrow> respond 200 (Json (JRows rows)))"

text \<open>\<^verbatim>\<open>POST /projects/:id/tasks\<close>\<close>

definition post_tasks :: "string \<Rightarrow> jsval \<Rightarrow> store \<Rightarrow> response \<times> store" where
  "post_tasks id_text title s =
     (case insert_task (pg_text title) id_text s of
        (Inl e, s1) \<Rightarrow> (respond 500 (Send ''Error adding task''), s1)
      | (Inr rows, s1) \<Rightarrow> (respond 201 (Json (rows0 rows)), s1))"

text \<open>\<^verbatim>\<open>PUT /tasks/:id\<close>\<close>

definition put_task :: "string \<Rightarrow> store \<Rightarrow> response \<times> store" where
  "put_task id_text s =
     (case update_task_done id_text s of
        (Inl e, s1) \<Rightarrow> (respond 500 (Send ''Error toggling task''), s1)
      | (Inr rows, s1) \<Rightarrow> (respond 200 (Json (rows0 rows)), s1))"

subsection \<open>Invariants of the store\<close>

text \<open>
  Every key is below its sequence and no key repeats; and the file of every row of
  \<^verbatim>\<open>files\<close> is on disk. Both hold in the empty store and after every request.
\<close>

definition keys_fresh :: "store \<Rightarrow> bool" where
  "keys_fresh s \<longleftrightarrow>
     (\<forall>p \<in> set (projects s). p_id p < projects_id_seq s) \<and> distinct (map p_id (projects s)) \<and>
     (\<forall>t \<in> set (tasks s). t_id t < tasks_id_seq s) \<and> distinct (map t_id (tasks s)) \<and>
     (\<forall>f \<in> set (files s). f_id f < files_id_seq s) \<and> distinct (map f_id (files s))"

definition files_on_disk :: "store \<Rightarrow> bool" where
  "files_on_disk s \<longleftrightarrow> (\<forall>f \<in> set (files s). map_of (disk s) (f_filepath f) \<noteq> None)"

section \<open>The projects-only server\<close>

text \<open>
  \<^verbatim>\<open>server.js\<close> keeps one table, in which \<^verbatim>\<open>status\<close> is \<^verbatim>\<open>NOT NULL\<close> without a default and
  there is no \<^verbatim>\<open>description\<close>.
\<close>

record server_project =
  sp_id :: int
  sp_name :: string
  sp_status :: string
  sp_created_at :: "int option"

record server_store =
  server_projects :: "server_project list"
  server_projects_id_seq :: int

definition server_project_row :: "server_project \<Rightarrow> row" where
  "server_project_row p =
     [(''id'', VInt (sp_id p)), (''name'', VText (sp_name p)),
      (''status'', VText (sp_status p)),
      (''created_at'', opt_val VTime (sp_created_at p))]"

definition server_desc_key :: "server_project \<Rightarrow> int option" where
  "server_desc_key p = map_option uminus (sp_created_at p)"

definition server_order_by_created_at_desc :: "server_project list \<Rightarrow> server_project list" where
  "server_order_by_created_at_desc ps = sort_key server_desc_key ps"

text \<open>\<^verbatim>\<open>SELECT * FROM projects ORDER BY created_at DESC\<close>\<close>

definition server_select_projects :: "server_store \<Rightarrow> store_error + row list" where
  "server_select_projects s =
     Inr (map server_project_row (server_order_by_created_at_desc (server_projects s)))"


text \<open>\<^verbatim>\<open>GET /projects\<close>\<close>

definition server_get_projects :: "server_store \<Rightarrow> response" where
  "server_get_projects s =
     (case server_select_projects s of
        Inl e \<Rightarrow> respond 500 (Send ''Server Error'')
      | Inr rows \<Rightarrow> respond 200 (Json (JRows rows)))"


section \<open>Example stores\<close>

text \<open>The store after \<^verbatim>\<open>createTables\<close> on a fresh database.\<close>

definition empty_store :: store where
  "empty_store =
     \<lparr>projects = [], tasks = [], files = [],
      projects_id_seq = 1, tasks_id_seq = 1, files_id_seq = 1, disk = []\<rparr>"


text \<open>
  Two projects, the second created later; four tasks of the first project, one of them
  done; one uploaded file.
\<close>

definition example_store :: store where
  "example_store =
     \<lparr>projects =
        [\<lparr>p_id = 1, p_name = ''Site'', p_description = Some ''Launch'', p_status = Some ''new'',
          p_created_at = Some 1000\<rparr>,
         \<lparr>p_id = 2, p_name = ''Shop'', p_description = Some ''Rebuild'', p_status = Some ''new'',
          p_created_at = Some 2000\<rparr>],
      tasks =
        [\<lparr>t_id = 1, t_title = ''Plan'', t_done = Some True, t_project_id = Some 1\<rparr>,
         \<lparr>t_id = 2, t_title = ''Draw'', t_done = Some False, t_project_id = Some 1\<rparr>,
         \<lparr>t_id = 3, t_title = ''Build'', t_done = Some False, t_project_id = Some 1\<rparr>,
         \<lparr>t_id = 4, t_title = ''Ship'', t_done = Some False, t_project_id = Some 1\<rparr>],
      files =
        [\<lparr>f_id = 1, f_filename = ''plan.pdf'', f_filepath = ''uploads/500-plan.pdf'',
          f_project_id = Some 1\<rparr>],
      projects_id_seq = 3, tasks_id_seq = 5, files_id_seq = 2,
      disk = [(''uploads/500-plan.pdf'', ''%PDF'')]\<rparr>"

text \<open>The same store after the upload directory has been emptied.\<close>

definition example_store_without_disk :: store where
  "example_store_without_disk = example_store\<lparr>disk := []\<rparr>"

definition example_server_store :: server_store where
  "example_server_store =
     \<lparr>server_projects =
        [\<lparr>sp_id = 1, sp_name = ''Site'', sp_status = ''new'', sp_created_at = Some 1000\<rparr>,
         \<lparr>sp_id = 2, sp_name = ''Shop'', sp_status = ''open'', sp_created_at = Some 2000\<rparr>],
      server_projects_id_seq = 3\<rparr>"

text \<open>One project with forty tasks, of which the first twenty-three are done.\<close>

definition store_23_of_40 :: store where
  "store_23_of_40 =
     \<lparr>projects =
        [\<lparr>p_id = 1, p_name = ''Site'', p_description = Some ''Launch'', p_status = Some ''new'',
          p_created_at = Some 1000\<rparr>],
      tasks = map (\<lambda>i. \<lparr>t_id = int i, t_title = ''Step'', t_done = Some (i \<le> 23),
                          t_project_id = Some 1\<rparr>) [1..<41],
      files = [],
      projects_id_seq = 2, tasks_id_seq = 41, files_id_seq = 1, disk = []\<rparr>"

text \<open>
  Two uploads of a file named \<^verbatim>\<open>plan.pdf\<close> to project 1 that the clock stamps with the
  same millisecond.
\<close>

definition plan_a :: part where
  "plan_a = \<lparr>part_filename = ''plan.pdf'', part_content = ''A''\<rparr>"

definition plan_b :: part where
  "plan_b = \<lparr>part_filename = ''plan.pdf'', part_content = ''B''\<rparr>"

definition same_ms_uploads :: store where
  "same_ms_uploads =
     snd (post_upload 1700000000000 ''1'' (Some plan_b)
       (snd (post_upload 1700000000000 ''1'' (Some plan_a) example_store)))"


section \<open>Decimal numerals and \<^verbatim>\<open>parseInt\<close>\<close>

declare decimal.simps [simp del]

lemma digit_char_props:
  assumes "d < 10"
  shows "is_digit (digit_char d)" and "digit_val (digit_char d) = d"
proof -
  from assms have "d = 0 \<or> d = 1 \<or> d = 2 \<or> d = 3 \<or> d = 4 \<or> d = 5
    \<or> d = 6 \<or> d = 7 \<or> d = 8 \<or> d = 9" by arith
  then have "is_digit (digit_char d) \<and> digit_val (digit_char d) = d"
    by (elim disjE) (simp_all add: digit_char_def is_digit_def digit_val_def)
  then show "is_digit (digit_char d)" and "digit_val (digit_char d) = d" by simp_all
qed

lemma decimal_digits: "c \<in> set (decimal n) \<Longrightarrow> is_digit c"
proof (induction n rule: decimal.induct)
  case (1 n)
  show ?case
  proof (cases "n < 10")
    case True
    with 1(2) show ?thesis by (simp add: decimal.simps[of n] digit_char_props)
  next
    case False
    with 1 show ?thesis by (auto simp: decimal.simps[of n] digit_char_props)
  qed
qed

lemma decimal_value: "foldl (\<lambda>acc c. 10 * acc + digit_val c) 0 (decimal n) = n"
proof (induction n rule: decimal.induct)
  case (1 n)
  show ?case
  proof (cases "n < 10")
    case True
    then show ?thesis by (simp add: decimal.simps[of n] digit_char_props)
  next
    case False
    with 1 show ?thesis by (simp add: decimal.simps[of n] digit_char_props)
  qed
qed

lemma decimal_not_Nil: "decimal n \<noteq> []"
  by (simp add: decimal.simps[of n])

lemma parseInt_decimal: "parseInt (decimal n) = Some n"
proof -
  have tw: "takeWhile is_digit (decimal n) = decimal n"
    by (simp add: takeWhile_eq_all_conv decimal_digits)
  show ?thesis unfolding parseInt_def Let_def tw by (simp add: decimal_not_Nil decimal_value)
qed

lemma decimal_inj: "decimal m = decimal n \<Longrightarrow> m = n"
  by (metis parseInt_decimal option.inject)

lemma parse_count_decimal: "parse_count [[(''count'', VText (decimal n))]] = Some (Some n)"
  by (simp add: parse_count_def parseInt_decimal)

section \<open>Identifiers\<close>

lemma digit_not_space: "is_digit c \<Longrightarrow> \<not> is_space c"
  by (auto simp: is_digit_def is_space_def)

lemma digit_not_sign: "is_digit c \<Longrightarrow> c \<noteq> CHR ''-'' \<and> c \<noteq> CHR ''+''"
  by (auto simp: is_digit_def)

text \<open>Every non-negative \<^verbatim>\<open>INTEGER\<close> is read from its decimal digits.\<close>

lemma pg_int4_decimal:
  assumes "n \<le> 2147483647"
  shows "pg_int4 (decimal n) = Some (int n)"
proof -
  obtain c cs where d: "decimal n = c # cs" using decimal_not_Nil[of n] by (cases "decimal n") auto
  have c: "is_digit c" using decimal_digits[of c n] d by simp
  have sp: "dropWhile is_space (decimal n) = decimal n"
    using d digit_not_space[OF c] by simp
  have tw: "takeWhile is_digit (decimal n) = decimal n"
    by (simp add: takeWhile_eq_all_conv decimal_digits)
  have dw: "dropWhile is_digit (decimal n) = []"
    by (simp add: dropWhile_eq_Nil_conv decimal_digits)
  have "pg_int4 (c # cs) = Some (int n)"
    unfolding pg_int4_def Let_def
    using assms digit_not_sign[OF c] digit_not_space[OF c] tw dw decimal_value[of n] decimal_not_Nil[of n]
    unfolding d by simp
  then show ?thesis by (simp only: d)
qed

text \<open>Whatever is read is an \<^verbatim>\<open>INTEGER\<close>.\<close>

lemma pg_int4_range:
  assumes "pg_int4 id_text = Some i"
  shows "- 2147483648 \<le> i \<and> i \<le> 2147483647"
  using assms unfolding pg_int4_def Let_def by (auto split: if_splits)

lemma pg_int4_examples:
  "pg_int4 ''1'' = Some 1" "pg_int4 ''2'' = Some 2" "pg_int4 ''5'' = Some 5"
  "pg_int4 ''7'' = Some 7" "pg_int4 ''9'' = Some 9"
  "pg_int4 ''abc'' = None" "pg_int4 ''2147483648'' = None" "pg_int4 '''' = None"
  by (simp_all add: pg_int4_def is_space_def is_digit_def digit_val_def)

section \<open>The completion handler in terms of the two counts\<close>

lemma get_completion_eq:
  assumes "pg_int4 id_text = Some pid"
  shows "get_completion s id_text =
     respond 200 (Json (JRow [(''percentage'',
       VInt (percentage
         (to_number (length (filter (\<lambda>t. t_project_id t = Some pid \<and> t_done t = Some True) (tasks s))))
         (to_number (length (filter (\<lambda>t. t_project_id t = Some pid) (tasks s))))))]))"
  using assms
  by (simp add: get_completion_def count_tasks_def count_done_tasks_def parse_count_decimal
      percentage_val_def)

lemma get_completion_refused:
  assumes "pg_int4 id_text = None"
  shows "get_completion s id_text = respond 500 (Send ''Error calculating completion'')"
  using assms by (simp add: get_completion_def count_tasks_def)

section \<open>Rounding to binary64\<close>

declare bit_length.simps [simp del]

lemma bit_length_bounds: "0 < n \<Longrightarrow> 2 ^ (bit_length n - 1) \<le> n \<and> n < 2 ^ bit_length n"
proof (induction n rule: bit_length.induct)
  case (1 n)
  show ?case
  proof (cases "n div 2 = 0")
    case True
    with 1(2) have "n = 1" by presburger
    then show ?thesis by (simp add: bit_length.simps)
  next
    case False
    then have pos: "0 < n div 2" by simp
    from 1(1)[OF _ pos] 1(2)
    have ih: "2 ^ (bit_length (n div 2) - 1) \<le> n div 2" "n div 2 < 2 ^ bit_length (n div 2)"
      by auto
    have bl: "bit_length n = Suc (bit_length (n div 2))"
      using 1(2) by (subst bit_length.simps) simp
    have bpos: "0 < bit_length (n div 2)"
      using pos by (subst bit_length.simps) simp
    then obtain k where k: "bit_length (n div 2) = Suc k" by (cases "bit_length (n div 2)") auto
    from ih k have "2 * 2 ^ k \<le> 2 * (n div 2)" by simp
    also have "\<dots> \<le> n" by simp
    finally have lo: "2 ^ (bit_length n - 1) \<le> n" using bl k by simp
    from ih(2) have "n div 2 + 1 \<le> 2 ^ bit_length (n div 2)" by simp
    then have "2 * (n div 2) + 2 \<le> 2 * 2 ^ bit_length (n div 2)" by simp
    moreover have "n < 2 * (n div 2) + 2" by presburger
    ultimately have hi: "n < 2 ^ bit_length n" using bl by simp
    from lo hi show ?thesis by simp
  qed
qed

lemma expo_bounds:
  assumes "0 < x"
  shows "2 powi expo x \<le> x \<and> x < 2 powi (expo x + 1)"
proof (cases "1 \<le> x")
  case True
  define n where "n = nat \<lfloor>x\<rfloor>"
  have npos: "0 < n" using True by (simp add: n_def)
  have e: "expo x = int (bit_length n) - 1" using True by (simp add: expo_def n_def)
  from bit_length_bounds[OF npos] have b: "2 ^ (bit_length n - 1) \<le> n" "n < 2 ^ bit_length n" by auto
  have bp: "0 < bit_length n" using npos by (subst bit_length.simps) simp
  have nx: "rat_of_nat n \<le> x" using True by (simp add: n_def)
  have xn: "x < rat_of_nat n + 1" using True by (simp add: n_def) linarith
  have "2 powi expo x = (2::rat) ^ (bit_length n - 1)"
    using bp by (simp add: e power_int_def nat_diff_distrib')
  also have "\<dots> = rat_of_nat (2 ^ (bit_length n - 1))" by simp
  also have "\<dots> \<le> rat_of_nat n" using b(1) by (simp only: of_nat_le_iff)
  finally have lo: "2 powi expo x \<le> x" using nx by simp
  have "rat_of_nat n + 1 \<le> rat_of_nat (2 ^ bit_length n)"
    using b(2) by (metis Suc_leI of_nat_Suc of_nat_le_iff add.commute)
  then have "x < (2::rat) ^ bit_length n" using xn by simp
  moreover have "2 powi (expo x + 1) = (2::rat) ^ bit_length n" by (simp add: e)
  ultimately show ?thesis using lo by simp
next
  case False
  then have x1: "x < 1" by simp
  define m where "m = \<lceil>1 / x\<rceil>"
  define n where "n = nat (m - 1)"
  have y1: "1 < 1 / x" using assms x1 by simp
  have m2: "2 \<le> m" using y1 unfolding m_def by linarith
  have npos: "0 < n" using m2 by (simp add: n_def)
  have e: "expo x = - int (bit_length n)" using False by (simp add: expo_def n_def m_def)
  from bit_length_bounds[OF npos] have b: "2 ^ (bit_length n - 1) \<le> n" "n < 2 ^ bit_length n" by auto
  have bp: "0 < bit_length n" using npos by (subst bit_length.simps) simp
  have ym: "1 / x \<le> of_int m" unfolding m_def by simp
  have my: "of_int m - 1 < 1 / x" unfolding m_def by linarith
  have nm: "rat_of_nat n = of_int m - 1" using m2 by (simp add: n_def)
  have "m \<le> 2 ^ bit_length n"
  proof -
    have "int n < 2 ^ bit_length n" using b(2) by (metis of_nat_less_iff of_nat_numeral of_nat_power)
    moreover have "int n = m - 1" using m2 by (simp add: n_def)
    ultimately show ?thesis by simp
  qed
  then have "rat_of_int m \<le> 2 ^ bit_length n"
    by (metis of_int_le_iff of_int_numeral of_int_power)
  with ym have "1 / x \<le> 2 ^ bit_length n" by (rule order_trans)
  then have "1 \<le> 2 ^ bit_length n * x" using assms by (simp add: field_simps)
  then have lo: "2 powi expo x \<le> x"
    by (simp add: e power_int_minus field_simps)
  have "rat_of_nat (2 ^ (bit_length n - 1)) \<le> rat_of_nat n" using b(1) by (simp only: of_nat_le_iff)
  then have "2 ^ (bit_length n - 1) < 1 / x" using my nm by simp
  then have "2 ^ (bit_length n - 1) * x < 1" using assms by (simp add: field_simps)
  moreover have "2 powi (expo x + 1) = 1 / (2::rat) ^ (bit_length n - 1)"
  proof -
    have "expo x + 1 = - int (bit_length n - 1)" using bp by (simp add: e)
    then show ?thesis by (simp add: power_int_minus field_simps del: of_nat_diff)
  qed
  ultimately have "x < 2 powi (expo x + 1)"
    by (simp add: pos_less_divide_eq mult.commute)
  with lo show ?thesis by simp
qed

lemma expo_unique:
  assumes "2 powi e \<le> x" "x < 2 powi (e + 1)"
  shows "expo x = e"
proof -
  have "(0::rat) < 2 powi e" by simp
  then have xpos: "0 < x" using assms(1) by (rule less_le_trans)
  from expo_bounds[OF xpos] have b: "2 powi expo x \<le> x" "x < 2 powi (expo x + 1)" by auto
  have "(2::rat) powi e < 2 powi (expo x + 1)" using assms(1) b(2) by simp
  then have 1: "e < expo x + 1"
    using power_int_increasing[of "expo x + 1" e "2::rat"] by (cases "e < expo x + 1") auto
  have "(2::rat) powi expo x < 2 powi (e + 1)" using assms(2) b(1) by simp
  then have 2: "expo x < e + 1"
    using power_int_increasing[of "e + 1" "expo x" "2::rat"] by (cases "expo x < e + 1") auto
  from 1 2 show ?thesis by simp
qed

lemma round_half_even_eq:
  assumes "of_int m - 1 / 2 < x" "x < of_int m + 1 / 2"
  shows "round_half_even x = m"
proof -
  have "\<lfloor>x\<rfloor> = m \<or> \<lfloor>x\<rfloor> = m - 1" using assms by linarith
  then show ?thesis
  proof
    assume f: "\<lfloor>x\<rfloor> = m"
    then have "x - of_int m < 1 / 2" using assms by simp
    then show ?thesis using f by (simp add: round_half_even_def Let_def)
  next
    assume f: "\<lfloor>x\<rfloor> = m - 1"
    then have "1 / 2 < x - of_int (m - 1)" using assms by simp
    then show ?thesis using f by (simp add: round_half_even_def Let_def)
  qed
qed

lemma fl_eqI:
  assumes "2 powi e \<le> x" "x < 2 powi (e + 1)"
    and "of_int m - 1 / 2 < x / 2 powi (e - 52)" "x / 2 powi (e - 52) < of_int m + 1 / 2"
  shows "fl x = of_int m * 2 powi (e - 52)"
proof -
  have "(0::rat) < 2 powi e" by simp
  then have xpos: "0 < x" using assms(1) by (rule less_le_trans)
  have "expo x = e" using assms(1,2) by (rule expo_unique)
  moreover have "round_half_even (x / 2 powi (e - 52)) = m" using assms(3,4) by (rule round_half_even_eq)
  ultimately show ?thesis using xpos by (simp add: fl_def Let_def)
qed


subsection \<open>The rounded value is a nearest one, and rounding is monotone\<close>

lemma round_half_even_bounds:
  "of_int (round_half_even x) \<le> x + 1 / 2" "x - 1 / 2 \<le> of_int (round_half_even x)"
proof -
  show "of_int (round_half_even x) \<le> x + 1 / 2"
    unfolding round_half_even_def Let_def by (simp split: if_splits) linarith
  show "x - 1 / 2 \<le> of_int (round_half_even x)"
    unfolding round_half_even_def Let_def by (simp split: if_splits) linarith
qed

lemma round_half_even_of_int: "round_half_even (of_int n) = n"
  by (simp add: round_half_even_def)

lemma round_half_even_floor: "\<lfloor>x\<rfloor> \<le> round_half_even x" "round_half_even x \<le> \<lfloor>x\<rfloor> + 1"
  by (simp_all add: round_half_even_def Let_def)

lemma round_half_even_mono:
  assumes "x \<le> y"
  shows "round_half_even x \<le> round_half_even y"
proof (cases "\<lfloor>x\<rfloor> = \<lfloor>y\<rfloor>")
  case True
  with assms have "x - of_int \<lfloor>x\<rfloor> \<le> y - of_int \<lfloor>y\<rfloor>" by simp
  then show ?thesis using True by (auto simp: round_half_even_def Let_def)
next
  case False
  from assms have "\<lfloor>x\<rfloor> \<le> \<lfloor>y\<rfloor>" by (rule floor_mono)
  with False have "\<lfloor>x\<rfloor> + 1 \<le> \<lfloor>y\<rfloor>" by simp
  with round_half_even_floor(2)[of x] round_half_even_floor(1)[of y] show ?thesis by linarith
qed

lemma fl_pos:
  assumes "0 < x"
  shows "fl x = of_int (round_half_even (x / 2 powi (expo x - 52))) * 2 powi (expo x - 52)"
  using assms by (simp add: fl_def Let_def)

lemma significand_bounds:
  assumes "0 < x"
  shows "2 ^ 52 \<le> x / 2 powi (expo x - 52)" "x / 2 powi (expo x - 52) < 2 ^ 53"
proof -
  have u: "(0::rat) < 2 powi (expo x - 52)" by simp
  from expo_bounds[OF assms] have b: "2 powi expo x \<le> x" "x < 2 powi (expo x + 1)" by auto
  have 1: "(2::rat) powi expo x = 2 ^ 52 * 2 powi (expo x - 52)"
    using power_int_add[of "2::rat" 52 "expo x - 52"] by simp
  have 2: "(2::rat) powi (expo x + 1) = 2 ^ 53 * 2 powi (expo x - 52)"
    using power_int_add[of "2::rat" 53 "expo x - 52"] by (simp add: add.commute)
  from b(1) show "2 ^ 52 \<le> x / 2 powi (expo x - 52)"
    unfolding 1 using u by (simp add: pos_le_divide_eq)
  from b(2) show "x / 2 powi (expo x - 52) < 2 ^ 53"
    unfolding 2 using u by (simp add: pos_divide_less_eq)
qed

lemma fl_bounds:
  assumes "0 < x"
  shows "2 powi expo x \<le> fl x" "fl x \<le> 2 powi (expo x + 1)"
proof -
  let ?u = "(2::rat) powi (expo x - 52)"
  have u: "0 < ?u" by simp
  have 1: "(2::rat) powi expo x = 2 ^ 52 * ?u"
    using power_int_add[of "2::rat" 52 "expo x - 52"] by simp
  have 2: "(2::rat) powi (expo x + 1) = 2 ^ 53 * ?u"
    using power_int_add[of "2::rat" 53 "expo x - 52"] by (simp add: add.commute)
  have "round_half_even (of_int (2 ^ 52)) \<le> round_half_even (x / ?u)"
    by (rule round_half_even_mono) (use significand_bounds(1)[OF assms] in simp)
  then have lo: "2 ^ 52 \<le> round_half_even (x / ?u)" by (simp only: round_half_even_of_int)
  have "round_half_even (x / ?u) \<le> round_half_even (of_int (2 ^ 53))"
    by (rule round_half_even_mono) (use significand_bounds(2)[OF assms] in simp)
  then have hi: "round_half_even (x / ?u) \<le> 2 ^ 53" by (simp only: round_half_even_of_int)
  from lo have "(2::rat) ^ 52 \<le> of_int (round_half_even (x / ?u))"
    by (metis of_int_le_iff of_int_numeral of_int_power)
  then show "2 powi expo x \<le> fl x"
    unfolding 1 fl_pos[OF assms] using u by (simp add: mult_right_mono)
  from hi have "of_int (round_half_even (x / ?u)) \<le> (2::rat) ^ 53"
    by (metis of_int_le_iff of_int_numeral of_int_power)
  then show "fl x \<le> 2 powi (expo x + 1)"
    unfolding 2 fl_pos[OF assms] using u by (simp add: mult_right_mono)
qed

lemma fl_nearest:
  assumes "0 < x"
  shows "\<bar>fl x - x\<bar> \<le> 2 powi (expo x - 53)"
proof -
  let ?u = "(2::rat) powi (expo x - 52)"
  have u: "0 < ?u" by simp
  have h: "(2::rat) powi (expo x - 53) = ?u / 2"
    using power_int_add[of "2::rat" "expo x - 52" "-1"] by simp
  have "\<bar>of_int (round_half_even (x / ?u)) - x / ?u\<bar> \<le> 1 / 2"
    using round_half_even_bounds[of "x / ?u"] by linarith
  then have "\<bar>of_int (round_half_even (x / ?u)) - x / ?u\<bar> * ?u \<le> 1 / 2 * ?u"
    using u by (simp only: mult_right_mono less_imp_le)
  moreover have "\<bar>of_int (round_half_even (x / ?u)) - x / ?u\<bar> * ?u = \<bar>fl x - x\<bar>"
  proof -
    have "\<bar>of_int (round_half_even (x / ?u)) - x / ?u\<bar> * ?u
        = \<bar>(of_int (round_half_even (x / ?u)) - x / ?u) * ?u\<bar>"
      using u by (simp add: abs_mult)
    also have "(of_int (round_half_even (x / ?u)) - x / ?u) * ?u = fl x - x"
      using u by (simp add: fl_pos[OF assms] left_diff_distrib)
    finally show ?thesis .
  qed
  ultimately show ?thesis by (simp add: h)
qed

lemma expo_mono:
  assumes "0 < x" "x \<le> y"
  shows "expo x \<le> expo y"
proof -
  have ypos: "0 < y" using assms by simp
  from expo_bounds[OF assms(1)] expo_bounds[OF ypos]
  have "(2::rat) powi expo x < 2 powi (expo y + 1)" using assms(2) by simp
  then have "expo x < expo y + 1"
    using power_int_increasing[of "expo y + 1" "expo x" "2::rat"] by (cases "expo x < expo y + 1") auto
  then show ?thesis by simp
qed

lemma fl_mono_pos:
  assumes "0 < x" "x \<le> y"
  shows "fl x \<le> fl y"
proof (cases "expo x = expo y")
  case True
  have ypos: "0 < y" using assms by simp
  let ?u = "(2::rat) powi (expo y - 52)"
  have u: "0 < ?u" by simp
  have "x / ?u \<le> y / ?u" using assms(2) u by (simp add: divide_right_mono)
  then have "round_half_even (x / ?u) \<le> round_half_even (y / ?u)" by (rule round_half_even_mono)
  then have "rat_of_int (round_half_even (x / ?u)) \<le> of_int (round_half_even (y / ?u))" by simp
  then show ?thesis
    unfolding fl_pos[OF assms(1)] fl_pos[OF ypos] True using u by (simp add: mult_right_mono)
next
  case False
  have ypos: "0 < y" using assms by simp
  from expo_mono[OF assms] False have "expo x + 1 \<le> expo y" by simp
  then have "(2::rat) powi (expo x + 1) \<le> 2 powi expo y"
    by (rule power_int_increasing) simp
  with fl_bounds(2)[OF assms(1)] fl_bounds(1)[OF ypos] show ?thesis by linarith
qed

lemma fl_zero: "fl 0 = 0"
  by (simp add: fl_def)

lemma fl_pos_pos: "0 < x \<Longrightarrow> 0 < fl x"
proof -
  assume "0 < x"
  from fl_bounds(1)[OF this] have "2 powi expo x \<le> fl x" .
  moreover have "(0::rat) < 2 powi expo x" by simp
  ultimately show ?thesis by linarith
qed

lemma fl_mono:
  assumes "0 \<le> x" "x \<le> y"
  shows "fl x \<le> fl y"
proof (cases "x = 0")
  case True
  show ?thesis
  proof (cases "y = 0")
    case True
    with \<open>x = 0\<close> show ?thesis by simp
  next
    case False
    with assms have "0 < y" by simp
    from fl_pos_pos[OF this] \<open>x = 0\<close> show ?thesis by (simp add: fl_zero)
  qed
next
  case False
  with assms(1) have "0 < x" by simp
  then show ?thesis using assms(2) by (rule fl_mono_pos)
qed

lemma fl_nonneg: "0 \<le> x \<Longrightarrow> 0 \<le> fl x"
  using fl_mono[of 0 x] by (simp add: fl_zero)

lemma fl_1: "fl 1 = 1"
proof -
  have "fl 1 = of_int (2 ^ 52) * 2 powi (0 - 52)"
    by (rule fl_eqI) (simp_all add: power_int_minus)
  then show ?thesis by (simp add: power_int_minus)
qed

lemma fl_100: "fl 100 = 100"
proof -
  have "fl 100 = of_int (100 * 2 ^ 46) * 2 powi (6 - 52)"
    by (rule fl_eqI) (simp_all add: power_int_minus)
  then show ?thesis by (simp add: power_int_minus)
qed


subsection \<open>Natural numbers below \<open>2 ^ 53\<close> are exact\<close>

lemma expo_less:
  assumes "0 < x" "x < 2 powi k"
  shows "expo x < k"
proof -
  from expo_bounds[OF assms(1)] assms(2) have "(2::rat) powi expo x < 2 powi k" by simp
  then show ?thesis
    using power_int_increasing[of k "expo x" "2::rat"] by (cases "expo x < k") auto
qed

lemma fl_error:
  assumes "0 < x" "x < 2 powi k"
  shows "\<bar>fl x - x\<bar> \<le> 2 powi (k - 54)"
proof -
  from expo_less[OF assms] have "expo x - 53 \<le> k - 54" by simp
  then have "(2::rat) powi (expo x - 53) \<le> 2 powi (k - 54)"
    by (rule power_int_increasing) simp
  with fl_nearest[OF assms(1)] show ?thesis by linarith
qed

lemma fl_of_nat:
  assumes "n < 2 ^ 53"
  shows "fl (of_nat n) = of_nat n"
proof (cases "n = 0")
  case True
  then show ?thesis by (simp add: fl_zero)
next
  case False
  let ?x = "rat_of_nat n"
  have xpos: "0 < ?x" using False by simp
  have x1: "1 \<le> ?x" using False by (simp add: Suc_leI)
  have "?x < rat_of_nat (2 ^ 53)" using assms by (simp only: of_nat_less_iff)
  then have "?x < 2 powi 53" by simp
  from expo_less[OF xpos this] have e53: "expo ?x < 53" .
  from expo_bounds[OF xpos] x1 have "(2::rat) powi 0 < 2 powi (expo ?x + 1)" by simp
  then have e0: "0 \<le> expo ?x"
    using power_int_increasing[of "expo ?x + 1" 0 "2::rat"] by (cases "0 \<le> expo ?x") auto
  define k where "k = nat (52 - expo ?x)"
  have ek: "expo ?x - 52 = - int k" using e53 by (simp add: k_def)
  have u: "(2::rat) powi (expo ?x - 52) = 1 / 2 ^ k"
    unfolding ek by (simp add: power_int_minus divide_inverse)
  have "?x / 2 powi (expo ?x - 52) = of_int (int n * 2 ^ k)" unfolding u by simp
  then have "round_half_even (?x / 2 powi (expo ?x - 52)) = int n * 2 ^ k"
    by (simp only: round_half_even_of_int)
  then show ?thesis unfolding fl_pos[OF xpos] u by simp
qed


section \<open>The percentage\<close>

text \<open>
  The percentage lies between 0 and 100 whenever the done tasks are among the tasks counted.
\<close>

lemma percentage_range:
  assumes "d \<le> t"
  shows "0 \<le> percentage (to_number d) (to_number t)"
    and "percentage (to_number d) (to_number t) \<le> 100"
proof -
  let ?a = "to_number d" and ?b = "to_number t"
  have a0: "0 \<le> ?a" by (simp add: to_number_def fl_nonneg)
  have ab: "?a \<le> ?b" using assms by (simp add: to_number_def fl_mono)
  have goal: "0 \<le> percentage ?a ?b \<and> percentage ?a ?b \<le> 100"
  proof (cases "?b = 0")
    case True
    then show ?thesis by (simp add: percentage_def)
  next
    case False
    with a0 ab have bpos: "0 < ?b" by simp
    have q0: "0 \<le> ?a / ?b" using a0 bpos by simp
    have q1: "?a / ?b \<le> 1" using ab bpos by simp
    have jq0: "0 \<le> js_div ?a ?b" unfolding js_div_def using q0 by (rule fl_nonneg)
    have "js_div ?a ?b \<le> fl 1" unfolding js_div_def using q0 q1 by (rule fl_mono)
    then have jq1: "js_div ?a ?b \<le> 1" by (simp only: fl_1)
    have m0: "0 \<le> js_mul (js_div ?a ?b) 100"
      unfolding js_mul_def using jq0 by (intro fl_nonneg) simp
    have "js_mul (js_div ?a ?b) 100 \<le> fl 100"
      unfolding js_mul_def using jq0 jq1 by (intro fl_mono) simp_all
    then have m1: "js_mul (js_div ?a ?b) 100 \<le> 100" by (simp only: fl_100)
    have "0 \<le> Math_round (js_mul (js_div ?a ?b) 100)"
      unfolding Math_round_def using m0 by linarith
    moreover have "Math_round (js_mul (js_div ?a ?b) 100) \<le> 100"
      unfolding Math_round_def using m1 by linarith
    ultimately show ?thesis using False by (simp add: percentage_def)
  qed
  from goal show "0 \<le> percentage ?a ?b" and "percentage ?a ?b \<le> 100" by simp_all
qed

text \<open>
  Away from ties the handler computes the value of the specification: when \<open>100 * d / t\<close> is
  not halfway between two integers, that is, when \<open>2 * t\<close> does not divide \<open>200 * d + t\<close>, and
  there are at most \<open>2 ^ 44\<close> tasks, the two rounding errors of the handler together stay below
  the distance \<open>1 / (2 * t)\<close> of \<open>100 * d / t\<close> from the nearest such midpoint.
\<close>

lemma percentage_off_ties:
  assumes "0 < t" "d \<le> t" "t \<le> 2 ^ 44" "\<not> (2 * t) dvd (200 * d + t)"
  shows "percentage (to_number d) (to_number t) = spec_percentage d t"
proof -
  have t53: "t < 2 ^ 53"
  proof -
    have "(2::nat) ^ 44 < 2 ^ 53" by simp
    with assms(3) show ?thesis by linarith
  qed
  then have d53: "d < 2 ^ 53" using assms(2) by simp
  have nt: "to_number t = of_nat t" and nd: "to_number d = of_nat d"
    using t53 d53 by (simp_all add: to_number_def fl_of_nat)
  have t0: "rat_of_nat t \<noteq> 0" "0 < rat_of_nat t" using assms(1) by simp_all
  define N where "N = 200 * d + t"
  define R where "R = N div (2 * t)"
  define r where "r = N mod (2 * t)"
  have Nr: "N = 2 * t * R + r" by (simp add: R_def r_def)
  have r0: "0 < r" using assms(4) by (simp add: r_def N_def dvd_eq_mod_eq_0)
  have r1: "r < 2 * t" using assms(1) by (simp add: r_def)
  define w where "w = 100 * rat_of_nat d / rat_of_nat t + 1 / 2"
  have wN: "w = rat_of_nat N / rat_of_nat (2 * t)"
    using t0 by (simp add: w_def N_def field_simps)
  have wR: "w = of_nat R + rat_of_nat r / rat_of_nat (2 * t)"
    unfolding wN using t0 by (subst Nr) (simp add: field_simps)
  have tt: "0 < rat_of_nat (2 * t)" using assms(1) by simp
  have g: "1 / 2 ^ 45 \<le> 1 / rat_of_nat (2 * t)"
  proof -
    have "2 * t \<le> 2 ^ 45" using assms(3) by simp
    then have "rat_of_nat (2 * t) \<le> rat_of_nat (2 ^ 45)" by (simp only: of_nat_le_iff)
    then have "rat_of_nat (2 * t) \<le> 2 ^ 45" by simp
    with tt show ?thesis by (simp only: divide_left_mono frac_le order_refl zero_le_one)
  qed
  have lo: "of_nat R + 1 / rat_of_nat (2 * t) \<le> w"
  proof -
    have "1 \<le> rat_of_nat r" using r0 by (simp add: Suc_leI)
    then have "1 / rat_of_nat (2 * t) \<le> rat_of_nat r / rat_of_nat (2 * t)"
      using tt by (simp only: divide_right_mono less_imp_le)
    then show ?thesis unfolding wR by simp
  qed
  have hi: "w \<le> of_nat R + 1 - 1 / rat_of_nat (2 * t)"
  proof -
    have "r + 1 \<le> 2 * t" using r1 by simp
    then have "rat_of_nat (r + 1) \<le> rat_of_nat (2 * t)" by (simp only: of_nat_le_iff)
    then have "rat_of_nat r \<le> rat_of_nat (2 * t) - 1" by simp
    then have "rat_of_nat r / rat_of_nat (2 * t) \<le> (rat_of_nat (2 * t) - 1) / rat_of_nat (2 * t)"
      using tt by (simp only: divide_right_mono less_imp_le)
    also have "\<dots> = 1 - 1 / rat_of_nat (2 * t)" using tt by (simp add: diff_divide_distrib)
    finally show ?thesis unfolding wR by simp
  qed
  have spec: "spec_percentage d t = int R"
  proof -
    have "\<lfloor>w\<rfloor> = int R"
    proof (rule floor_unique)
      show "of_int (int R) \<le> w" using lo tt by (simp add: wR)
      have "0 < 1 / rat_of_nat (2 * t)" using tt by (simp only: zero_less_divide_1_iff)
      moreover have "rat_of_int (int R) = rat_of_nat R" by simp
      ultimately show "w < of_int (int R) + 1" using hi by linarith
    qed
    then show ?thesis using assms(1) by (simp add: spec_percentage_def w_def)
  qed
  show ?thesis
  proof (cases "d = 0")
    case True
    have "Math_round 0 = 0" unfolding Math_round_def by (rule floor_unique) simp_all
    then have "percentage (to_number d) (to_number t) = 0"
      using True t0 by (simp add: percentage_def nt to_number_def js_div_def js_mul_def fl_zero)
    moreover have "spec_percentage d t = 0"
    proof -
      have "\<lfloor>(1::rat) / 2\<rfloor> = 0" by (rule floor_unique) simp_all
      then show ?thesis using True assms(1) by (simp add: spec_percentage_def)
    qed
    ultimately show ?thesis by simp
  next
    case False
    define x where "x = rat_of_nat d / rat_of_nat t"
    have xpos: "0 < x" using False t0 by (simp add: x_def)
    have x1: "x \<le> 1" using assms(2) t0 by (simp add: x_def)
    define q where "q = fl x"
    have qpos: "0 < q" unfolding q_def using xpos by (rule fl_pos_pos)
    have q1: "q \<le> 1"
    proof -
      have "fl x \<le> fl 1" using xpos x1 by (intro fl_mono) simp_all
      then show ?thesis by (simp add: q_def fl_1)
    qed
    have eq: "\<bar>q - x\<bar> \<le> 2 powi (- 53)"
    proof -
      have "x < 2 powi 1" using x1 by simp
      from fl_error[OF xpos this] show ?thesis by (simp add: q_def)
    qed
    define y where "y = q * 100"
    have ypos: "0 < y" using qpos by (simp add: y_def)
    have y7: "y < 2 powi 7" using q1 by (simp add: y_def)
    define m where "m = fl y"
    have em: "\<bar>m - y\<bar> \<le> 2 powi (- 47)"
      using fl_error[OF ypos y7] by (simp add: m_def)
    have split: "m - 100 * x = (m - y) + 100 * (q - x)" by (simp add: y_def algebra_simps)
    have "\<bar>(m - y) + 100 * (q - x)\<bar> \<le> \<bar>m - y\<bar> + \<bar>100 * (q - x)\<bar>"
      by (rule abs_triangle_ineq)
    moreover have "\<bar>100 * (q - x)\<bar> = 100 * \<bar>q - x\<bar>"
      using abs_mult[of "100::rat" "q - x"] by (simp only: abs_numeral)
    ultimately have "\<bar>m - 100 * x\<bar> \<le> \<bar>m - y\<bar> + 100 * \<bar>q - x\<bar>"
      by (simp only: split)
    also have "\<dots> \<le> 2 powi (- 47) + 100 * 2 powi (- 53)"
      by (intro add_mono mult_left_mono em eq) simp
    also have "\<dots> < 1 / 2 ^ 45" by (simp add: power_int_minus)
    finally have err: "\<bar>m - 100 * x\<bar> < 1 / rat_of_nat (2 * t)" using g by linarith
    have wx: "w = 100 * x + 1 / 2" by (simp add: w_def x_def)
    have "\<lfloor>m + 1 / 2\<rfloor> = int R"
    proof (rule floor_unique)
      show "of_int (int R) \<le> m + 1 / 2" using lo err wx by (simp add: abs_less_iff)
      show "m + 1 / 2 < of_int (int R) + 1" using hi err wx by (simp add: abs_less_iff)
    qed
    moreover have "percentage (to_number d) (to_number t) = \<lfloor>m + 1 / 2\<rfloor>"
      using t0 by (simp add: percentage_def nt nd js_div_def js_mul_def Math_round_def
          m_def y_def q_def x_def)
    ultimately show ?thesis using spec by simp
  qed
qed

text \<open>The examples of the specification, and a tie on which the handler rounds down.\<close>

lemma fl_small_naturals: "fl 3 = 3" "fl 4 = 4"
proof -
  have "fl 3 = of_int (3 * 2 ^ 51) * 2 powi (1 - 52)"
    by (rule fl_eqI) (simp_all add: power_int_minus)
  then show "fl 3 = 3" by (simp add: power_int_minus)
  have "fl 4 = of_int (2 ^ 52) * 2 powi (2 - 52)"
    by (rule fl_eqI) (simp_all add: power_int_minus)
  then show "fl 4 = 4" by (simp add: power_int_minus)
qed

lemma percentage_1_of_4: "percentage (to_number 1) (to_number 4) = 25"
proof -
  have q: "fl (1 / 4) = 1 / 4"
  proof -
    have "fl (1 / 4) = of_int (2 ^ 52) * 2 powi (- 2 - 52)"
      by (rule fl_eqI) (simp_all add: power_int_minus)
    then show ?thesis by (simp add: power_int_minus)
  qed
  have m: "fl 25 = 25"
  proof -
    have "fl 25 = of_int (25 * 2 ^ 48) * 2 powi (4 - 52)"
      by (rule fl_eqI) (simp_all add: power_int_minus)
    then show ?thesis by (simp add: power_int_minus)
  qed
  have d: "js_div (to_number 1) (to_number 4) = 1 / 4"
    by (simp add: js_div_def to_number_def fl_1 fl_small_naturals q)
  have j: "js_mul (1 / 4) 100 = 25" by (simp add: js_mul_def m)
  have r: "Math_round 25 = 25" unfolding Math_round_def by (rule floor_unique) simp_all
  have "to_number 4 \<noteq> 0" by (simp add: to_number_def fl_small_naturals)
  then show ?thesis unfolding percentage_def by (simp only: d j r if_False)
qed

lemma percentage_1_of_3: "percentage (to_number 1) (to_number 3) = 33"
proof -
  have q: "fl (1 / 3) = 6004799503160661 / 2 ^ 54"
  proof -
    have "fl (1 / 3) = of_int 6004799503160661 * 2 powi (- 2 - 52)"
      by (rule fl_eqI) (simp_all add: power_int_minus)
    then show ?thesis by (simp add: power_int_minus)
  qed
  have m: "js_mul (6004799503160661 / 2 ^ 54) 100 = 4691249611844266 / 2 ^ 47"
  proof -
    have "fl (6004799503160661 / 2 ^ 54 * 100) = of_int 4691249611844266 * 2 powi (5 - 52)"
      by (rule fl_eqI) (simp_all add: power_int_minus)
    then show ?thesis unfolding js_mul_def by (simp add: power_int_minus)
  qed
  have r: "Math_round (4691249611844266 / 2 ^ 47) = 33"
    unfolding Math_round_def by (rule floor_unique) simp_all
  have d: "js_div (to_number 1) (to_number 3) = 6004799503160661 / 2 ^ 54"
    by (simp add: js_div_def to_number_def fl_1 fl_small_naturals q)
  have "to_number 3 \<noteq> 0" by (simp add: to_number_def fl_small_naturals)
  then show ?thesis unfolding percentage_def by (simp only: d m r if_False)
qed

lemma spec_percentage_examples: "spec_percentage 1 4 = 25" "spec_percentage 1 3 = 33"
proof -
  have "\<lfloor>100 * rat_of_nat 1 / rat_of_nat 4 + 1 / 2\<rfloor> = 25" by (rule floor_unique) simp_all
  then show "spec_percentage 1 4 = 25" by (simp add: spec_percentage_def)
  have "\<lfloor>100 * rat_of_nat 1 / rat_of_nat 3 + 1 / 2\<rfloor> = 33" by (rule floor_unique) simp_all
  then show "spec_percentage 1 3 = 33" by (simp add: spec_percentage_def)
qed

lemma fl_23_40: "fl (23 / 40) = 5179139571476070 / 2 ^ 53"
proof -
  have "fl (23 / 40) = of_int 5179139571476070 * 2 powi (- 1 - 52)"
    by (rule fl_eqI) (simp_all add: power_int_minus)
  then show ?thesis by (simp add: power_int_minus)
qed

lemma fl_40: "fl 40 = 40"
proof -
  have "fl 40 = of_int (40 * 2 ^ 47) * 2 powi (5 - 52)"
    by (rule fl_eqI) (simp_all add: power_int_minus)
  then show ?thesis by (simp add: power_int_minus)
qed

lemma fl_23: "fl 23 = 23"
proof -
  have "fl 23 = of_int (23 * 2 ^ 48) * 2 powi (4 - 52)"
    by (rule fl_eqI) (simp_all add: power_int_minus)
  then show ?thesis by (simp add: power_int_minus)
qed

lemma js_div_23_40: "js_div (to_number 23) (to_number 40) = 5179139571476070 / 2 ^ 53"
  by (simp add: js_div_def to_number_def fl_23 fl_40 fl_23_40)

lemma js_mul_23_40: "js_mul (5179139571476070 / 2 ^ 53) 100 = 8092405580431359 / 2 ^ 47"
proof -
  have "fl (5179139571476070 / 2 ^ 53 * 100) = of_int 8092405580431359 * 2 powi (5 - 52)"
    by (rule fl_eqI) (simp_all add: power_int_minus)
  then show ?thesis unfolding js_mul_def by (simp add: power_int_minus)
qed

lemma Math_round_23_40: "Math_round (8092405580431359 / 2 ^ 47) = 57"
  unfolding Math_round_def by (rule floor_unique) simp_all

lemma percentage_23_40: "percentage (to_number 23) (to_number 40) = 57"
proof -
  have "to_number 40 \<noteq> 0" by (simp add: to_number_def fl_40)
  then show ?thesis
    unfolding percentage_def by (simp only: js_div_23_40 js_mul_23_40 Math_round_23_40 if_False)
qed

lemma spec_percentage_23_40: "spec_percentage 23 40 = 58"
  by (simp add: spec_percentage_def)

section \<open>Tasks and completion\<close>

lemma sql_not_sql_not: "sql_not (sql_not d) = d"
  by (cases d) simp_all

lemma toggle_toggle: "toggle i (toggle i t) = t"
  by (simp add: toggle_def sql_not_sql_not)

lemma t_id_toggle: "t_id (toggle i t) = t_id t"
  by (simp add: toggle_def)

lemma find_map_toggle:
  "find (\<lambda>t. t_id t = i) (map (toggle i) ts) = map_option (toggle i) (find (\<lambda>t. t_id t = i) ts)"
  by (induction ts) (simp_all add: t_id_toggle)

lemma find_Some_filter: "find P xs = Some x \<Longrightarrow> \<exists>ys. filter P xs = x # ys"
  by (induction xs) (auto split: if_splits)

lemma find_Some_holds: "find P xs = Some x \<Longrightarrow> P x \<and> x \<in> set xs"
  by (induction xs) (auto split: if_splits)

lemma filter_toggle:
  "filter (\<lambda>t. t_id t = i) (map (toggle i) ts) = map (toggle i) (filter (\<lambda>t. t_id t = i) ts)"
  by (induction ts) (simp_all add: t_id_toggle)

lemma put_task_eq:
  assumes "pg_int4 id_text = Some i"
  shows "put_task id_text s =
     (respond 200 (Json (rows0 (map task_row (map (toggle i) (filter (\<lambda>t. t_id t = i) (tasks s)))))),
      s\<lparr>tasks := map (toggle i) (tasks s)\<rparr>)"
  using assms by (simp add: put_task_def update_task_done_def Let_def filter_toggle)

text \<open>An id that the store cannot read as an \<^verbatim>\<open>INTEGER\<close> is answered with 500.\<close>

lemma put_task_refused:
  assumes "pg_int4 id_text = None"
  shows "put_task id_text s = (respond 500 (Send ''Error toggling task''), s)"
  using assms by (simp add: put_task_def update_task_done_def)

text \<open>
  \<^bold>\<open>C3.\<close> For every task id, that is, every \<^verbatim>\<open>INTEGER\<close> \<open>i\<close> that the request names, which no
  row of the store carries, \<^verbatim>\<open>PUT /tasks/:id\<close> answers with status 200 and an undefined
  (empty) body, not with 404, and leaves every task row, indeed the whole store, as it was.
\<close>
theorem put_task_missing:
  assumes "pg_int4 id_text = Some i" and "\<forall>t \<in> set (tasks s). t_id t \<noteq> i"
  shows "put_task id_text s = (\<lparr>status = 200, body = Json JUndefined\<rparr>, s)"
proof -
  have "filter (\<lambda>t. t_id t = i) (tasks s) = []" using assms(2) by (simp add: filter_empty_conv)
  moreover have "map (toggle i) (tasks s) = tasks s"
    using assms(2) by (simp add: map_idI toggle_def)
  ultimately show ?thesis by (simp add: put_task_eq[OF assms(1)] respond_def)
qed

theorem put_task_missing_witness:
  "pg_int4 ''9'' = Some 9
   \<and> map t_id (tasks example_store) = [1, 2, 3, 4]
   \<and> put_task ''9'' example_store = (\<lparr>status = 200, body = Json JUndefined\<rparr>, example_store)"
proof -
  have ids: "map t_id (tasks example_store) = [1, 2, 3, 4]" by (simp add: example_store_def)
  have "\<forall>t \<in> set (tasks example_store). t_id t \<noteq> 9" by (simp add: example_store_def)
  from put_task_missing[OF pg_int4_examples(5) this] ids pg_int4_examples(5) show ?thesis by simp
qed

text \<open>
  \<^bold>\<open>C2.\<close> Toggling is an involution. For every request whose id is the id of a task row \<open>t\<close>
  of the store, \<^verbatim>\<open>PUT /tasks/:id\<close> answers 200 with that row in which \<^verbatim>\<open>done\<close> is negated (a
  row that was \<^verbatim>\<open>false\<close> becomes \<^verbatim>\<open>true\<close> and the reverse: the field is flipped, not set), and
  a second request for the same id gives the row, and indeed the whole store, its original
  value back.
\<close>
theorem put_task_involution:
  assumes "find (\<lambda>t. pg_int4 id_text = Some (t_id t)) (tasks s) = Some t"
  shows "fst (put_task id_text s) =
           \<lparr>status = 200, body = Json (JRow (task_row (t\<lparr>t_done := sql_not (t_done t)\<rparr>)))\<rparr>
       \<and> find (\<lambda>t. pg_int4 id_text = Some (t_id t)) (tasks (snd (put_task id_text s))) =
           Some (t\<lparr>t_done := sql_not (t_done t)\<rparr>)
       \<and> (\<forall>b. t_done t = Some b \<longrightarrow>
             map_option t_done
               (find (\<lambda>t. pg_int4 id_text = Some (t_id t)) (tasks (snd (put_task id_text s))))
             = Some (Some (\<not> b)))
       \<and> find (\<lambda>t. pg_int4 id_text = Some (t_id t))
             (tasks (snd (put_task id_text (snd (put_task id_text s))))) = Some t
       \<and> snd (put_task id_text (snd (put_task id_text s))) = s"
proof -
  define i where "i = t_id t"
  from find_Some_holds[OF assms] have rd: "pg_int4 id_text = Some i" by (simp add: i_def)
  have P: "(\<lambda>t. pg_int4 id_text = Some (t_id t)) = (\<lambda>t. t_id t = i)"
    by (auto simp: rd)
  have f: "find (\<lambda>t. t_id t = i) (tasks s) = Some t" using assms unfolding P .
  note eq = put_task_eq[OF rd]
  have tog: "toggle i t = t\<lparr>t_done := sql_not (t_done t)\<rparr>" by (simp add: toggle_def i_def)
  from find_Some_filter[OF f] obtain ys where ys: "filter (\<lambda>t. t_id t = i) (tasks s) = t # ys" ..
  have 1: "fst (put_task id_text s) =
      \<lparr>status = 200, body = Json (JRow (task_row (t\<lparr>t_done := sql_not (t_done t)\<rparr>)))\<rparr>"
    by (simp add: eq ys respond_def tog)
  have 2: "find (\<lambda>t. t_id t = i) (tasks (snd (put_task id_text s))) = Some (t\<lparr>t_done := sql_not (t_done t)\<rparr>)"
    by (simp add: eq find_map_toggle f tog)
  have 3: "\<forall>b. t_done t = Some b \<longrightarrow>
      map_option t_done (find (\<lambda>t. t_id t = i) (tasks (snd (put_task id_text s)))) = Some (Some (\<not> b))"
    by (simp add: 2)
  have 5: "snd (put_task id_text (snd (put_task id_text s))) = s"
    by (simp add: eq toggle_toggle comp_def)
  have 4: "find (\<lambda>t. t_id t = i) (tasks (snd (put_task id_text (snd (put_task id_text s))))) = Some t"
    by (simp only: 5 f)
  from 1 2 3 4 5 show ?thesis unfolding P by blast
qed

theorem put_task_involution_witness:
  "find (\<lambda>t. pg_int4 ''2'' = Some (t_id t)) (tasks example_store)
     = Some \<lparr>t_id = 2, t_title = ''Draw'', t_done = Some False, t_project_id = Some 1\<rparr>
   \<and> fst (put_task ''2'' example_store) =
       \<lparr>status = 200, body = Json (JRow [(''id'', VInt 2), (''title'', VText ''Draw''),
          (''done'', VBool True), (''project_id'', VInt 1)])\<rparr>
   \<and> find (\<lambda>t. pg_int4 ''2'' = Some (t_id t)) (tasks (snd (put_task ''2'' example_store)))
     = Some \<lparr>t_id = 2, t_title = ''Draw'', t_done = Some True, t_project_id = Some 1\<rparr>
   \<and> snd (put_task ''2'' (snd (put_task ''2'' example_store))) = example_store"
proof -
  have f: "find (\<lambda>t. pg_int4 ''2'' = Some (t_id t)) (tasks example_store)
     = Some \<lparr>t_id = 2, t_title = ''Draw'', t_done = Some False, t_project_id = Some 1\<rparr>"
    by (simp add: example_store_def pg_int4_examples)
  from put_task_involution[OF f] f show ?thesis by (simp add: task_row_def)
qed

text \<open>
  \<^bold>\<open>C10.\<close> For every project id, that is, every \<^verbatim>\<open>INTEGER\<close> that the request names, for which
  the store has no task row, whether or not a project with that id exists,
  \<^verbatim>\<open>GET /projects/:id/completion\<close> answers 200 with \<^verbatim>\<open>{percentage: 0}\<close>. For every such id the
  status is 200, and no request at all is answered with 404.
\<close>
theorem completion_without_tasks:
  "(\<forall>pid. pg_int4 id_text = Some pid \<and> (\<forall>t \<in> set (tasks s). t_project_id t \<noteq> Some pid)
      \<longrightarrow> get_completion s id_text =
            \<lparr>status = 200, body = Json (JRow [(''percentage'', VInt 0)])\<rparr>)
   \<and> (pg_int4 id_text \<noteq> None \<longrightarrow> status (get_completion s id_text) = 200)
   \<and> status (get_completion s id_text) \<noteq> 404"
proof -
  have a: "get_completion s id_text = \<lparr>status = 200, body = Json (JRow [(''percentage'', VInt 0)])\<rparr>"
    if "pg_int4 id_text = Some pid" "\<forall>t \<in> set (tasks s). t_project_id t \<noteq> Some pid" for pid
  proof -
    from that(2) have "filter (\<lambda>t. t_project_id t = Some pid) (tasks s) = []"
      by (simp add: filter_empty_conv)
    then show ?thesis
      by (simp add: get_completion_eq[OF that(1)] percentage_def to_number_def fl_def respond_def)
  qed
  have b: "status (get_completion s id_text) = 200" if "pg_int4 id_text \<noteq> None"
  proof -
    from that obtain pid where "pg_int4 id_text = Some pid" by auto
    then show ?thesis by (simp add: get_completion_eq respond_def)
  qed
  have c: "get_completion s id_text = \<lparr>status = 500, body = Send ''Error calculating completion''\<rparr>"
    if "pg_int4 id_text = None"
    using that by (simp add: get_completion_refused respond_def)
  have d: "status (get_completion s id_text) \<noteq> 404"
  proof (cases "pg_int4 id_text")
    case None
    then show ?thesis by (simp add: c)
  next
    case (Some pid)
    then show ?thesis by (simp add: b)
  qed
  from a b c d show ?thesis by blast
qed

theorem completion_without_tasks_witness:
  "pg_int4 ''7'' = Some 7 \<and> pg_int4 ''2'' = Some 2
   \<and> map t_project_id (tasks example_store) = [Some 1, Some 1, Some 1, Some 1]
   \<and> \<not> project_exists example_store 7
   \<and> get_completion example_store ''7'' = \<lparr>status = 200, body = Json (JRow [(''percentage'', VInt 0)])\<rparr>
   \<and> project_exists example_store 2
   \<and> get_completion example_store ''2'' = \<lparr>status = 200, body = Json (JRow [(''percentage'', VInt 0)])\<rparr>"
proof -
  have n7: "\<forall>t \<in> set (tasks example_store). t_project_id t \<noteq> Some 7"
    and n2: "\<forall>t \<in> set (tasks example_store). t_project_id t \<noteq> Some 2"
    by (simp_all add: example_store_def)
  have m: "map t_project_id (tasks example_store) = [Some 1, Some 1, Some 1, Some 1]"
    and e7: "\<not> project_exists example_store 7" and e2: "project_exists example_store 2"
    by (simp_all add: example_store_def project_exists_def)
  from completion_without_tasks[of "''7''" example_store]
    completion_without_tasks[of "''2''" example_store]
    n7 n2 m e7 e2 pg_int4_examples
  show ?thesis by simp
qed

text \<open>One task of four done: the answer is 25.\<close>

lemma count_example_store:
  "length (filter (\<lambda>t. t_project_id t = Some 1) (tasks example_store)) = 4"
  "length (filter (\<lambda>t. t_project_id t = Some 1 \<and> t_done t = Some True) (tasks example_store)) = 1"
  by (simp_all add: example_store_def)

lemma completion_1_of_4:
  "get_completion example_store ''1'' = \<lparr>status = 200, body = Json (JRow [(''percentage'', VInt 25)])\<rparr>"
  by (simp only: get_completion_eq[OF pg_int4_examples(1)] count_example_store percentage_1_of_4
      respond_def)

lemma count_23_of_40:
  "length (filter (\<lambda>t. t_project_id t = Some 1) (tasks store_23_of_40)) = 40"
  "length (filter (\<lambda>t. t_project_id t = Some 1 \<and> t_done t = Some True) (tasks store_23_of_40)) = 23"
proof -
  show "length (filter (\<lambda>t. t_project_id t = Some 1) (tasks store_23_of_40)) = 40"
    by (simp add: store_23_of_40_def)
  have "filter (\<lambda>i. i \<le> 23) [1..<41] = [1..<24]"
    by (simp add: upt_rec_numeral upt_conv_Cons)
  then show "length (filter (\<lambda>t. t_project_id t = Some 1 \<and> t_done t = Some True) (tasks store_23_of_40)) = 23"
    by (simp add: store_23_of_40_def filter_map comp_def)
qed

text \<open>
  \<^bold>\<open>C1.\<close> The completion percentage is stated to be, for a project with tasks,
  \<open>100 * done / total\<close> rounded to the nearest integer with a half going up. The handler
  computes \<^verbatim>\<open>Math.round((doneTasks / totalTasks) * 100)\<close> on binary64 numbers: for a project
  with 40 tasks of which 23 are done, the quotient rounds to a number just below 0.575, its
  product with 100 to a number just below 57.5, and the handler answers 57, whereas the
  stated value is 58.
\<close>
theorem completion_23_of_40:
  "get_completion store_23_of_40 ''1'' = \<lparr>status = 200, body = Json (JRow [(''percentage'', VInt 57)])\<rparr>
   \<and> spec_percentage 23 40 = 58"
  by (simp only: get_completion_eq[OF pg_int4_examples(1)] count_23_of_40 percentage_23_40
      spec_percentage_23_40 respond_def)

section \<open>Files\<close>

lemma get_file_view_eq:
  assumes "pg_int4 id_text = Some i"
  shows "get_file_view s id_text =
     (case filter (\<lambda>f. f_id f = i) (files s) of
        [] \<Rightarrow> respond 404 (Send ''File not found'')
      | f # fs \<Rightarrow> sendFile (disk s) (f_filepath f))"
  using assms by (simp add: get_file_view_def select_file_def file_row_def split: list.splits)

lemma get_file_view_refused:
  assumes "pg_int4 id_text = None"
  shows "get_file_view s id_text = respond 500 (Send ''Error viewing file'')"
  using assms by (simp add: get_file_view_def select_file_def)

text \<open>
  \<^bold>\<open>C8.\<close> \<^verbatim>\<open>GET /files/:id/view\<close> is stated to answer 404 if and only if no row of \<^verbatim>\<open>files\<close> has
  the id, and 200 with the file otherwise. When the row is there and the file is gone from
  the upload directory, the answer is 404 all the same; and for an id such as
  \<^verbatim>\<open>2147483648\<close>, which no row has because it is no \<^verbatim>\<open>INTEGER\<close>, the answer is 500.
\<close>
theorem file_view_row_without_file_counterexample:
  "map f_id (files example_store_without_disk) = [1]
   \<and> get_file_view example_store_without_disk ''1'' = \<lparr>status = 404, body = ErrorPage\<rparr>
   \<and> map f_id (files example_store) = [1]
   \<and> get_file_view example_store ''2147483648'' =
       \<lparr>status = 500, body = Send ''Error viewing file''\<rparr>"
  by (simp add: get_file_view_eq[OF pg_int4_examples(1)] get_file_view_refused[OF pg_int4_examples(7)]
      example_store_without_disk_def example_store_def sendFile_def respond_def)

text \<open>
  \<^bold>\<open>C8, amended.\<close> For every id that the store reads as an \<^verbatim>\<open>INTEGER\<close>, \<^verbatim>\<open>GET /files/:id/view\<close>
  answers 404 if and only if no row of \<^verbatim>\<open>files\<close> has that id or no file is at the path stored
  in the row that has it; when the row is there and its file is on disk, the answer is the
  content of the file at the stored path, with status 200. In a store in which the file of
  every row is on disk, as it is after any sequence of requests, the answer is thus 404 if
  and only if no row has the id.
\<close>
theorem file_view_not_found:
  "(\<forall>i. pg_int4 id_text = Some i \<longrightarrow>
      ((\<forall>f \<in> set (files s). f_id f \<noteq> i)
         \<longrightarrow> get_file_view s id_text = \<lparr>status = 404, body = Send ''File not found''\<rparr>)
    \<and> (\<forall>f. find (\<lambda>f. f_id f = i) (files s) = Some f \<longrightarrow>
          (\<forall>c. map_of (disk s) (f_filepath f) = Some c
             \<longrightarrow> get_file_view s id_text = \<lparr>status = 200, body = Stream c\<rparr>)
        \<and> (map_of (disk s) (f_filepath f) = None
             \<longrightarrow> get_file_view s id_text = \<lparr>status = 404, body = ErrorPage\<rparr>))
    \<and> (status (get_file_view s id_text) = 404 \<longleftrightarrow>
          (\<forall>f \<in> set (files s). f_id f \<noteq> i)
          \<or> (\<exists>f. find (\<lambda>f. f_id f = i) (files s) = Some f \<and> map_of (disk s) (f_filepath f) = None))
    \<and> (files_on_disk s \<longrightarrow>
          (status (get_file_view s id_text) = 404 \<longleftrightarrow> (\<forall>f \<in> set (files s). f_id f \<noteq> i))))"
proof (intro conjI allI impI)
  fix i
  assume rd: "pg_int4 id_text = Some i"
  note eq = get_file_view_eq[OF rd]
  have none: "get_file_view s id_text = \<lparr>status = 404, body = Send ''File not found''\<rparr>"
    if "\<forall>f \<in> set (files s). f_id f \<noteq> i"
  proof -
    from that have "filter (\<lambda>f. f_id f = i) (files s) = []" by (simp add: filter_empty_conv)
    then show ?thesis by (simp add: eq respond_def)
  qed
  have some: "get_file_view s id_text = sendFile (disk s) (f_filepath f)"
    if "find (\<lambda>f. f_id f = i) (files s) = Some f" for f
  proof -
    from find_Some_filter[OF that] obtain ys where "filter (\<lambda>f. f_id f = i) (files s) = f # ys" ..
    then show ?thesis by (simp add: eq)
  qed
  have cases: "(\<forall>f \<in> set (files s). f_id f \<noteq> i) \<or> (\<exists>f. find (\<lambda>f. f_id f = i) (files s) = Some f)"
    by (cases "find (\<lambda>f. f_id f = i) (files s)") (auto simp: find_None_iff)
  have excl: "\<not> (\<forall>f \<in> set (files s). f_id f \<noteq> i)" if "find (\<lambda>f. f_id f = i) (files s) = Some f" for f
    using find_Some_holds[OF that] by auto
  show "\<forall>f \<in> set (files s). f_id f \<noteq> i
      \<Longrightarrow> get_file_view s id_text = \<lparr>status = 404, body = Send ''File not found''\<rparr>"
    by (rule none)
  show "get_file_view s id_text = \<lparr>status = 200, body = Stream c\<rparr>"
    if "find (\<lambda>f. f_id f = i) (files s) = Some f" "map_of (disk s) (f_filepath f) = Some c" for f c
    using some[OF that(1)] that(2) by (simp add: sendFile_def respond_def)
  show "get_file_view s id_text = \<lparr>status = 404, body = ErrorPage\<rparr>"
    if "find (\<lambda>f. f_id f = i) (files s) = Some f" "map_of (disk s) (f_filepath f) = None" for f
    using some[OF that(1)] that(2) by (simp add: sendFile_def respond_def)
  show iff: "status (get_file_view s id_text) = 404 \<longleftrightarrow>
          (\<forall>f \<in> set (files s). f_id f \<noteq> i)
          \<or> (\<exists>f. find (\<lambda>f. f_id f = i) (files s) = Some f \<and> map_of (disk s) (f_filepath f) = None)"
  proof (cases "find (\<lambda>f. f_id f = i) (files s)")
    case None
    then have "\<forall>f \<in> set (files s). f_id f \<noteq> i" by (auto simp: find_None_iff)
    then show ?thesis using none by simp
  next
    case (Some f)
    show ?thesis
      using some[OF Some] excl[OF Some] Some
      by (cases "map_of (disk s) (f_filepath f)") (simp_all add: sendFile_def respond_def)
  qed
  show "status (get_file_view s id_text) = 404 \<longleftrightarrow> (\<forall>f \<in> set (files s). f_id f \<noteq> i)"
    if od: "files_on_disk s"
  proof -
    have "\<not> (\<exists>f. find (\<lambda>f. f_id f = i) (files s) = Some f \<and> map_of (disk s) (f_filepath f) = None)"
    proof
      assume "\<exists>f. find (\<lambda>f. f_id f = i) (files s) = Some f \<and> map_of (disk s) (f_filepath f) = None"
      then obtain f where f: "find (\<lambda>f. f_id f = i) (files s) = Some f"
        and g: "map_of (disk s) (f_filepath f) = None" by blast
      from find_Some_holds[OF f] have "f \<in> set (files s)" by simp
      with od have "map_of (disk s) (f_filepath f) \<noteq> None" by (simp add: files_on_disk_def)
      with g show False by simp
    qed
    with iff show ?thesis by simp
  qed
qed

theorem file_view_not_found_witness:
  "pg_int4 ''5'' = Some 5 \<and> pg_int4 ''1'' = Some 1
   \<and> map f_id (files example_store) = [1]
   \<and> get_file_view example_store ''5'' = \<lparr>status = 404, body = Send ''File not found''\<rparr>
   \<and> find (\<lambda>f. f_id f = 1) (files example_store)
       = Some \<lparr>f_id = 1, f_filename = ''plan.pdf'', f_filepath = ''uploads/500-plan.pdf'',
               f_project_id = Some 1\<rparr>
   \<and> map_of (disk example_store) ''uploads/500-plan.pdf'' = Some ''%PDF''
   \<and> get_file_view example_store ''1'' = \<lparr>status = 200, body = Stream ''%PDF''\<rparr>
   \<and> map_of (disk example_store_without_disk) ''uploads/500-plan.pdf'' = None
   \<and> get_file_view example_store_without_disk ''1'' = \<lparr>status = 404, body = ErrorPage\<rparr>
   \<and> files_on_disk example_store"
proof -
  have f: "find (\<lambda>f. f_id f = 1) (files example_store)
       = Some \<lparr>f_id = 1, f_filename = ''plan.pdf'', f_filepath = ''uploads/500-plan.pdf'',
               f_project_id = Some 1\<rparr>"
    and g: "find (\<lambda>f. f_id f = 1) (files example_store_without_disk)
       = Some \<lparr>f_id = 1, f_filename = ''plan.pdf'', f_filepath = ''uploads/500-plan.pdf'',
               f_project_id = Some 1\<rparr>"
    by (simp_all add: example_store_def example_store_without_disk_def)
  have n: "\<forall>f \<in> set (files example_store). f_id f \<noteq> 5"
    and ids: "map f_id (files example_store) = [1]"
    and d: "map_of (disk example_store) ''uploads/500-plan.pdf'' = Some ''%PDF''"
    and e: "map_of (disk example_store_without_disk) ''uploads/500-plan.pdf'' = None"
    and od: "files_on_disk example_store"
    by (simp_all add: example_store_def example_store_without_disk_def files_on_disk_def)
  from file_view_not_found[of "''5''" example_store] file_view_not_found[of "''1''" example_store]
    file_view_not_found[of "''1''" example_store_without_disk]
    f g n ids d e od pg_int4_examples
  show ?thesis by simp
qed

lemma get_files_refused:
  assumes "pg_int4 id_text = None"
  shows "get_files s id_text = respond 500 (Send ''Error fetching files'')"
  using assms by (simp add: get_files_def select_id_filename_def)

text \<open>
  \<^bold>\<open>C7.\<close> For every project, \<^verbatim>\<open>GET /projects/:id/files\<close> answers with one object per file of
  the project, each with exactly the keys \<^verbatim>\<open>id\<close> and \<^verbatim>\<open>filename\<close> and never \<^verbatim>\<open>filepath\<close>;
  whereas \<^verbatim>\<open>GET /files/:id/view\<close> retrieves the full row, \<^verbatim>\<open>filepath\<close> included, and hands that
  path to \<^verbatim>\<open>res.sendFile\<close> to stream the file stored there.
\<close>
theorem list_files_omits_filepath:
  "(\<forall>pid. pg_int4 id_text = Some pid \<longrightarrow>
      (\<exists>objs. get_files s id_text = \<lparr>status = 200, body = Json (JRows objs)\<rparr>
        \<and> length objs = length (filter (\<lambda>f. f_project_id f = Some pid) (files s))
        \<and> (\<forall>r \<in> set objs. map fst r = [''id'', ''filename''] \<and> map_of r ''filepath'' = None
              \<and> (\<exists>f \<in> set (files s). f_project_id f = Some pid
                    \<and> r = [(''id'', VInt (f_id f)), (''filename'', VText (f_filename f))]))))
   \<and> (\<forall>f. find (\<lambda>f. pg_int4 view_id = Some (f_id f)) (files s) = Some f
        \<longrightarrow> (\<exists>rows. select_file s view_id = Inr (file_row f # rows))
          \<and> map fst (file_row f) = [''id'', ''filename'', ''filepath'', ''project_id'']
          \<and> map_of (file_row f) ''filepath'' = Some (VText (f_filepath f))
          \<and> get_file_view s view_id = sendFile (disk s) (f_filepath f))"
proof -
  have 1: "\<exists>objs. get_files s id_text = \<lparr>status = 200, body = Json (JRows objs)\<rparr>
      \<and> length objs = length (filter (\<lambda>f. f_project_id f = Some pid) (files s))
      \<and> (\<forall>r \<in> set objs. map fst r = [''id'', ''filename''] \<and> map_of r ''filepath'' = None
            \<and> (\<exists>f \<in> set (files s). f_project_id f = Some pid
                  \<and> r = [(''id'', VInt (f_id f)), (''filename'', VText (f_filename f))]))"
    if rd: "pg_int4 id_text = Some pid" for pid
  proof -
    let ?objs = "map (\<lambda>f. [(''id'', VInt (f_id f)), (''filename'', VText (f_filename f))])
            (filter (\<lambda>f. f_project_id f = Some pid) (files s))"
    have "get_files s id_text = \<lparr>status = 200, body = Json (JRows ?objs)\<rparr>"
      using rd by (simp add: get_files_def select_id_filename_def respond_def)
    moreover have "length ?objs = length (filter (\<lambda>f. f_project_id f = Some pid) (files s))"
      by simp
    moreover have "\<forall>r \<in> set ?objs. map fst r = [''id'', ''filename''] \<and> map_of r ''filepath'' = None
            \<and> (\<exists>f \<in> set (files s). f_project_id f = Some pid
                  \<and> r = [(''id'', VInt (f_id f)), (''filename'', VText (f_filename f))])"
      by auto
    ultimately show ?thesis by blast
  qed
  have 3: "(\<exists>rows. select_file s view_id = Inr (file_row f # rows))
          \<and> map fst (file_row f) = [''id'', ''filename'', ''filepath'', ''project_id'']
          \<and> map_of (file_row f) ''filepath'' = Some (VText (f_filepath f))
          \<and> get_file_view s view_id = sendFile (disk s) (f_filepath f)"
    if h: "find (\<lambda>f. pg_int4 view_id = Some (f_id f)) (files s) = Some f" for f
  proof -
    define i where "i = f_id f"
    from find_Some_holds[OF h] have rd: "pg_int4 view_id = Some i" by (simp add: i_def)
    have P: "(\<lambda>f. pg_int4 view_id = Some (f_id f)) = (\<lambda>f. f_id f = i)" by (auto simp: rd)
    from h have "find (\<lambda>f. f_id f = i) (files s) = Some f" unfolding P .
    from find_Some_filter[OF this] obtain ys where ys: "filter (\<lambda>f. f_id f = i) (files s) = f # ys" ..
    then show ?thesis
      by (simp add: get_file_view_eq[OF rd] select_file_def rd file_row_def)
  qed
  from 1 3 show ?thesis by blast
qed

theorem list_files_omits_filepath_witness:
  "pg_int4 ''1'' = Some 1
   \<and> get_files example_store ''1'' =
     \<lparr>status = 200, body = Json (JRows [[(''id'', VInt 1), (''filename'', VText ''plan.pdf'')]])\<rparr>
   \<and> find (\<lambda>f. pg_int4 ''1'' = Some (f_id f)) (files example_store)
       = Some \<lparr>f_id = 1, f_filename = ''plan.pdf'', f_filepath = ''uploads/500-plan.pdf'',
               f_project_id = Some 1\<rparr>
   \<and> select_file example_store ''1'' =
       Inr [[(''id'', VInt 1), (''filename'', VText ''plan.pdf''),
             (''filepath'', VText ''uploads/500-plan.pdf''), (''project_id'', VInt 1)]]
   \<and> get_file_view example_store ''1'' = sendFile (disk example_store) ''uploads/500-plan.pdf''
   \<and> sendFile (disk example_store) ''uploads/500-plan.pdf'' = \<lparr>status = 200, body = Stream ''%PDF''\<rparr>"
proof -
  have f: "find (\<lambda>f. pg_int4 ''1'' = Some (f_id f)) (files example_store)
       = Some \<lparr>f_id = 1, f_filename = ''plan.pdf'', f_filepath = ''uploads/500-plan.pdf'',
               f_project_id = Some 1\<rparr>"
    by (simp add: example_store_def pg_int4_examples)
  have g: "get_files example_store ''1'' =
     \<lparr>status = 200, body = Json (JRows [[(''id'', VInt 1), (''filename'', VText ''plan.pdf'')]])\<rparr>"
    by (simp add: get_files_def select_id_filename_def respond_def example_store_def pg_int4_examples)
  have h: "select_file example_store ''1'' =
       Inr [[(''id'', VInt 1), (''filename'', VText ''plan.pdf''),
             (''filepath'', VText ''uploads/500-plan.pdf''), (''project_id'', VInt 1)]]"
    by (simp add: select_file_def file_row_def example_store_def pg_int4_examples)
  have k: "sendFile (disk example_store) ''uploads/500-plan.pdf'' = \<lparr>status = 200, body = Stream ''%PDF''\<rparr>"
    by (simp add: sendFile_def respond_def example_store_def)
  from list_files_omits_filepath[of "''1''" example_store "''1''"] f g h k pg_int4_examples(1)
  show ?thesis by simp
qed

subsection \<open>Uploads\<close>

lemma valid_text_stored:
  assumes "writable_name (storage_filename now original)"
  shows "valid_text original" and "valid_text (''uploads/'' @ storage_filename now original)"
  using assms by (auto simp: writable_name_def valid_text_def storage_filename_def)

lemma post_upload_eq:
  assumes "pg_int4 id_text = Some pid" and "project_exists s pid"
    and "basename (part_filename u) = original" and "original \<noteq> []"
    and "writable_name (storage_filename now original)"
    and "files_id_seq s \<le> 2147483647"
  shows "post_upload now id_text (Some u) s =
     (\<lparr>status = 201, body = Send ''File uploaded''\<rparr>,
      s\<lparr>disk := write_file (''uploads/'' @ decimal now @ ''-'' @ original) (part_content u) (disk s),
        files_id_seq := files_id_seq s + 1,
        files := files s @
          [\<lparr>f_id = files_id_seq s, f_filename = original,
            f_filepath = ''uploads/'' @ decimal now @ ''-'' @ original,
            f_project_id = Some pid\<rparr>]\<rparr>)"
proof -
  from valid_text_stored[OF assms(5)]
  have v: "valid_text original" "valid_text (''uploads/'' @ decimal now @ ''-'' @ original)"
    by (simp_all add: storage_filename_def)
  have w: "writable_name (decimal now @ ''-'' @ original)"
    using assms(5) by (simp add: storage_filename_def)
  show ?thesis
    using assms(1,2,3,4,6) v w
    by (simp add: post_upload_def upload_single_def insert_file_def storage_filename_def
        project_exists_def respond_def Let_def)
qed

text \<open>
  A part without a base name is skipped and the handler answers 400; directory parts of the
  name are dropped.
\<close>

lemma post_upload_without_name:
  assumes "basename (part_filename u) = []"
  shows "post_upload now id_text (Some u) s = (respond 400 (Send ''No file uploaded''), s)"
  using assms by (simp add: post_upload_def upload_single_def)

lemma basename_examples:
  "basename ''plan.pdf'' = ''plan.pdf''" "basename ''docs/plan.pdf'' = ''plan.pdf''"
  "basename '''' = ''''" "basename ''docs/..'' = ''''"
  by (simp_all add: basename_def)

text \<open>
  \<^bold>\<open>C9.\<close> Two uploads with the same original filename are stated to be stored under two
  distinct paths, the timestamp prefix making the stored name unique. The prefix is the
  clock's millisecond count: two uploads of \<^verbatim>\<open>plan.pdf\<close> to project 1 within the same
  millisecond are both answered with 201 and get two metadata rows, with the ids 2 and 3,
  but one and the same stored path; the second file has replaced the first on disk.
\<close>
theorem uploads_same_ms_share_path:
  "status (fst (post_upload 1700000000000 ''1'' (Some plan_a) example_store)) = 201
   \<and> status (fst (post_upload 1700000000000 ''1'' (Some plan_b)
        (snd (post_upload 1700000000000 ''1'' (Some plan_a) example_store)))) = 201
   \<and> part_filename plan_a = part_filename plan_b
   \<and> map f_id (files same_ms_uploads) = [1, 2, 3]
   \<and> map f_filepath (files same_ms_uploads) =
       [''uploads/500-plan.pdf'', ''uploads/1700000000000-plan.pdf'',
        ''uploads/1700000000000-plan.pdf'']
   \<and> disk same_ms_uploads =
       [(''uploads/1700000000000-plan.pdf'', ''B''), (''uploads/500-plan.pdf'', ''%PDF'')]"
proof -
  have d: "decimal 1700000000000 = ''1700000000000''"
    by (simp add: decimal.simps digit_char_def)
  have ex: "project_exists example_store 1" by (simp add: project_exists_def example_store_def)
  have w: "writable_name (storage_filename 1700000000000 ''plan.pdf'')"
    by (simp add: writable_name_def storage_filename_def d)
  have 1: "post_upload 1700000000000 ''1'' (Some plan_a) example_store =
     (\<lparr>status = 201, body = Send ''File uploaded''\<rparr>,
      example_store\<lparr>disk := write_file ''uploads/1700000000000-plan.pdf'' ''A'' (disk example_store),
        files_id_seq := 3,
        files := files example_store @
          [\<lparr>f_id = 2, f_filename = ''plan.pdf'', f_filepath = ''uploads/1700000000000-plan.pdf'',
            f_project_id = Some 1\<rparr>]\<rparr>)"
    using post_upload_eq[OF pg_int4_examples(1) ex, of plan_a "''plan.pdf''" 1700000000000] w
    by (simp add: plan_a_def basename_examples d example_store_def)
  let ?s1 = "example_store\<lparr>disk := write_file ''uploads/1700000000000-plan.pdf'' ''A'' (disk example_store),
        files_id_seq := 3,
        files := files example_store @
          [\<lparr>f_id = 2, f_filename = ''plan.pdf'', f_filepath = ''uploads/1700000000000-plan.pdf'',
            f_project_id = Some 1\<rparr>]\<rparr>"
  have ex1: "project_exists ?s1 1" by (simp add: project_exists_def example_store_def)
  have 2: "post_upload 1700000000000 ''1'' (Some plan_b) ?s1 =
     (\<lparr>status = 201, body = Send ''File uploaded''\<rparr>,
      ?s1\<lparr>disk := write_file ''uploads/1700000000000-plan.pdf'' ''B'' (disk ?s1),
        files_id_seq := 4,
        files := files ?s1 @
          [\<lparr>f_id = 3, f_filename = ''plan.pdf'', f_filepath = ''uploads/1700000000000-plan.pdf'',
            f_project_id = Some 1\<rparr>]\<rparr>)"
    using post_upload_eq[OF pg_int4_examples(1) ex1, of plan_b "''plan.pdf''" 1700000000000] w
    by (simp add: plan_b_def basename_examples d)
  show ?thesis
    unfolding same_ms_uploads_def 1 snd_conv fst_conv 2
    by (simp add: example_store_def write_file_def plan_a_def plan_b_def)
qed

text \<open>
  What does hold of two uploads with the same original filename to an existing project:
  two distinct rows are inserted, and the stored paths differ when the two millisecond
  counts differ.
\<close>

lemma uploads_same_filename_rows:
  assumes "pg_int4 id_text = Some pid" and "project_exists s pid"
    and "basename (part_filename u1) = original" and "basename (part_filename u2) = original"
    and "original \<noteq> []"
    and "writable_name (storage_filename now1 original)"
    and "writable_name (storage_filename now2 original)"
    and "files_id_seq s < 2147483647"
  shows "\<exists>f1 f2 s1 s2.
      post_upload now1 id_text (Some u1) s = (\<lparr>status = 201, body = Send ''File uploaded''\<rparr>, s1)
    \<and> post_upload now2 id_text (Some u2) s1 = (\<lparr>status = 201, body = Send ''File uploaded''\<rparr>, s2)
    \<and> files s2 = files s @ [f1, f2]
    \<and> f1 \<noteq> f2 \<and> f_id f1 \<noteq> f_id f2
    \<and> f_filename f1 = original \<and> f_filename f2 = original
    \<and> f_filepath f1 = ''uploads/'' @ decimal now1 @ ''-'' @ original
    \<and> f_filepath f2 = ''uploads/'' @ decimal now2 @ ''-'' @ original
    \<and> (now1 \<noteq> now2 \<longrightarrow> f_filepath f1 \<noteq> f_filepath f2)"
proof -
  let ?p1 = "''uploads/'' @ decimal now1 @ ''-'' @ original"
  let ?p2 = "''uploads/'' @ decimal now2 @ ''-'' @ original"
  let ?f1 = "\<lparr>f_id = files_id_seq s, f_filename = original, f_filepath = ?p1,
              f_project_id = Some pid\<rparr>"
  let ?f2 = "\<lparr>f_id = files_id_seq s + 1, f_filename = original, f_filepath = ?p2,
              f_project_id = Some pid\<rparr>"
  let ?s1 = "s\<lparr>disk := write_file ?p1 (part_content u1) (disk s),
        files_id_seq := files_id_seq s + 1, files := files s @ [?f1]\<rparr>"
  let ?s2 = "?s1\<lparr>disk := write_file ?p2 (part_content u2) (disk ?s1),
        files_id_seq := files_id_seq ?s1 + 1, files := files ?s1 @ [?f2]\<rparr>"
  have q: "files_id_seq s \<le> 2147483647" using assms(8) by simp
  have e1: "post_upload now1 id_text (Some u1) s = (\<lparr>status = 201, body = Send ''File uploaded''\<rparr>, ?s1)"
    by (rule post_upload_eq[OF assms(1,2,3,5,6) q])
  have ex1: "project_exists ?s1 pid" using assms(2) by (simp add: project_exists_def)
  have q1: "files_id_seq ?s1 \<le> 2147483647" using assms(8) by simp
  have e2: "post_upload now2 id_text (Some u2) ?s1 = (\<lparr>status = 201, body = Send ''File uploaded''\<rparr>, ?s2)"
    using post_upload_eq[OF assms(1) ex1 assms(4,5,7) q1] by simp
  have paths: "now1 \<noteq> now2 \<longrightarrow> ?p1 \<noteq> ?p2"
    using decimal_inj[of now1 now2] by auto
  have "files ?s2 = files s @ [?f1, ?f2]" by simp
  moreover have "?f1 \<noteq> ?f2" "f_id ?f1 \<noteq> f_id ?f2" by simp_all
  ultimately show ?thesis using e1 e2 paths
    by (intro exI[of _ ?f1] exI[of _ ?f2] exI[of _ ?s1] exI[of _ ?s2]) simp
qed

section \<open>Projects\<close>








lemma sorted_desc_nth:
  assumes "sorted (map k ps)" "i < length ps" "j < length ps"
    and "k (ps ! i) = Some (- a)" "k (ps ! j) = Some (- b)" "(a::int) < b"
  shows "j < i"
proof (rule ccontr)
  assume "\<not> j < i"
  then have "i \<le> j" by simp
  with assms(1,3) have "map k ps ! i \<le> map k ps ! j"
    by (simp add: sorted_iff_nth_mono)
  with assms(2,3,4,5) have "b \<le> a" by simp
  with assms(6) show False by simp
qed

lemma before_in_sorted:
  assumes "sorted (map k ps)" "A \<in> set ps" "B \<in> set ps"
    and "k A = Some (- a)" "k B = Some (- b)" "(a::int) < b"
  shows "\<exists>i j. i < j \<and> j < length ps \<and> ps ! i = B \<and> ps ! j = A"
proof -
  from assms(2) obtain j where j: "j < length ps" "ps ! j = A" by (auto simp: in_set_conv_nth)
  from assms(3) obtain i where i: "i < length ps" "ps ! i = B" by (auto simp: in_set_conv_nth)
  have "i < j" using sorted_desc_nth[OF assms(1) j(1) i(1), of a b] assms(4,5,6) i(2) j(2) by simp
  with i j show ?thesis by blast
qed

text \<open>
  \<^bold>\<open>C6.\<close> \<^verbatim>\<open>GET /projects\<close> answers, in both servers, with all project rows ordered by
  \<^verbatim>\<open>created_at\<close> descending: the rows are a permutation of the table, a row never follows
  one with an earlier timestamp, and for every pair of projects where \<open>B\<close> was created after
  \<open>A\<close> (its \<^verbatim>\<open>created_at\<close> is later), \<open>B\<close> appears before \<open>A\<close> in the array.
\<close>
theorem get_projects_ordered:
  "get_projects s =
     \<lparr>status = 200, body = Json (JRows (map project_row (order_by_created_at_desc (projects s))))\<rparr>
   \<and> mset (order_by_created_at_desc (projects s)) = mset (projects s)
   \<and> (\<forall>i j a b. i < j \<and> j < length (projects s)
        \<and> p_created_at (order_by_created_at_desc (projects s) ! i) = Some a
        \<and> p_created_at (order_by_created_at_desc (projects s) ! j) = Some b \<longrightarrow> b \<le> a)
   \<and> (\<forall>A \<in> set (projects s). \<forall>B \<in> set (projects s). \<forall>a b.
        p_created_at A = Some a \<and> p_created_at B = Some b \<and> a < b \<longrightarrow>
        (\<exists>i j. i < j \<and> j < length (projects s)
           \<and> order_by_created_at_desc (projects s) ! i = B
           \<and> order_by_created_at_desc (projects s) ! j = A))
   \<and> server_get_projects v =
     \<lparr>status = 200,
      body = Json (JRows (map server_project_row (server_order_by_created_at_desc (server_projects v))))\<rparr>
   \<and> mset (server_order_by_created_at_desc (server_projects v)) = mset (server_projects v)
   \<and> (\<forall>i j a b. i < j \<and> j < length (server_projects v)
        \<and> sp_created_at (server_order_by_created_at_desc (server_projects v) ! i) = Some a
        \<and> sp_created_at (server_order_by_created_at_desc (server_projects v) ! j) = Some b \<longrightarrow> b \<le> a)
   \<and> (\<forall>A \<in> set (server_projects v). \<forall>B \<in> set (server_projects v). \<forall>a b.
        sp_created_at A = Some a \<and> sp_created_at B = Some b \<and> a < b \<longrightarrow>
        (\<exists>i j. i < j \<and> j < length (server_projects v)
           \<and> server_order_by_created_at_desc (server_projects v) ! i = B
           \<and> server_order_by_created_at_desc (server_projects v) ! j = A))"
proof -
  let ?ps = "order_by_created_at_desc (projects s)"
  let ?qs = "server_order_by_created_at_desc (server_projects v)"
  have sp: "sorted (map desc_key ?ps)" by (simp add: order_by_created_at_desc_def)
  have lp: "length ?ps = length (projects s)" by (simp add: order_by_created_at_desc_def)
  have stp: "set ?ps = set (projects s)" by (simp add: order_by_created_at_desc_def)
  have sq: "sorted (map server_desc_key ?qs)" by (simp add: server_order_by_created_at_desc_def)
  have lq: "length ?qs = length (server_projects v)" by (simp add: server_order_by_created_at_desc_def)
  have stq: "set ?qs = set (server_projects v)" by (simp add: server_order_by_created_at_desc_def)
  have 1: "get_projects s = \<lparr>status = 200, body = Json (JRows (map project_row ?ps))\<rparr>"
    by (simp add: get_projects_def select_projects_def respond_def)
  have 2: "mset ?ps = mset (projects s)" by (simp add: order_by_created_at_desc_def)
  have 3: "\<forall>i j a b. i < j \<and> j < length (projects s)
        \<and> p_created_at (?ps ! i) = Some a \<and> p_created_at (?ps ! j) = Some b \<longrightarrow> b \<le> a"
  proof (intro allI impI)
    fix i j a b
    assume h: "i < j \<and> j < length (projects s)
        \<and> p_created_at (?ps ! i) = Some a \<and> p_created_at (?ps ! j) = Some b"
    show "b \<le> a"
    proof (rule ccontr)
      assume "\<not> b \<le> a"
      then have "a < b" by simp
      have "j < i"
        by (rule sorted_desc_nth[OF sp, of i j a b]) (use h lp \<open>a < b\<close> in \<open>simp_all add: desc_key_def\<close>)
      with h show False by simp
    qed
  qed
  have 4: "\<forall>A \<in> set (projects s). \<forall>B \<in> set (projects s). \<forall>a b.
        p_created_at A = Some a \<and> p_created_at B = Some b \<and> a < b \<longrightarrow>
        (\<exists>i j. i < j \<and> j < length (projects s) \<and> ?ps ! i = B \<and> ?ps ! j = A)"
  proof (intro ballI allI impI)
    fix A B a b
    assume A: "A \<in> set (projects s)" and B: "B \<in> set (projects s)"
      and h: "p_created_at A = Some a \<and> p_created_at B = Some b \<and> a < b"
    have "\<exists>i j. i < j \<and> j < length ?ps \<and> ?ps ! i = B \<and> ?ps ! j = A"
      by (rule before_in_sorted[OF sp, of A B a b]) (use A B h stp in \<open>simp_all add: desc_key_def\<close>)
    then show "\<exists>i j. i < j \<and> j < length (projects s) \<and> ?ps ! i = B \<and> ?ps ! j = A"
      by (simp only: lp)
  qed
  have 5: "server_get_projects v = \<lparr>status = 200, body = Json (JRows (map server_project_row ?qs))\<rparr>"
    by (simp add: server_get_projects_def server_select_projects_def respond_def)
  have 6: "mset ?qs = mset (server_projects v)" by (simp add: server_order_by_created_at_desc_def)
  have 7: "\<forall>i j a b. i < j \<and> j < length (server_projects v)
        \<and> sp_created_at (?qs ! i) = Some a \<and> sp_created_at (?qs ! j) = Some b \<longrightarrow> b \<le> a"
  proof (intro allI impI)
    fix i j a b
    assume h: "i < j \<and> j < length (server_projects v)
        \<and> sp_created_at (?qs ! i) = Some a \<and> sp_created_at (?qs ! j) = Some b"
    show "b \<le> a"
    proof (rule ccontr)
      assume "\<not> b \<le> a"
      then have "a < b" by simp
      have "j < i"
        by (rule sorted_desc_nth[OF sq, of i j a b])
          (use h lq \<open>a < b\<close> in \<open>simp_all add: server_desc_key_def\<close>)
      with h show False by simp
    qed
  qed
  have 8: "\<forall>A \<in> set (server_projects v). \<forall>B \<in> set (server_projects v). \<forall>a b.
        sp_created_at A = Some a \<and> sp_created_at B = Some b \<and> a < b \<longrightarrow>
        (\<exists>i j. i < j \<and> j < length (server_projects v) \<and> ?qs ! i = B \<and> ?qs ! j = A)"
  proof (intro ballI allI impI)
    fix A B a b
    assume A: "A \<in> set (server_projects v)" and B: "B \<in> set (server_projects v)"
      and h: "sp_created_at A = Some a \<and> sp_created_at B = Some b \<and> a < b"
    have "\<exists>i j. i < j \<and> j < length ?qs \<and> ?qs ! i = B \<and> ?qs ! j = A"
      by (rule before_in_sorted[OF sq, of A B a b])
        (use A B h stq in \<open>simp_all add: server_desc_key_def\<close>)
    then show "\<exists>i j. i < j \<and> j < length (server_projects v) \<and> ?qs ! i = B \<and> ?qs ! j = A"
      by (simp only: lq)
  qed
  from 1 2 3 4 5 6 7 8 show ?thesis by blast
qed

lemma example_order:
  "order_by_created_at_desc (projects example_store) =
     [\<lparr>p_id = 2, p_name = ''Shop'', p_description = Some ''Rebuild'', p_status = Some ''new'',
       p_created_at = Some 2000\<rparr>,
      \<lparr>p_id = 1, p_name = ''Site'', p_description = Some ''Launch'', p_status = Some ''new'',
       p_created_at = Some 1000\<rparr>]"
  by (simp add: order_by_created_at_desc_def example_store_def desc_key_def)

lemma example_server_order:
  "server_order_by_created_at_desc (server_projects example_server_store) =
     [\<lparr>sp_id = 2, sp_name = ''Shop'', sp_status = ''open'', sp_created_at = Some 2000\<rparr>,
      \<lparr>sp_id = 1, sp_name = ''Site'', sp_status = ''new'', sp_created_at = Some 1000\<rparr>]"
  by (simp add: server_order_by_created_at_desc_def example_server_store_def server_desc_key_def)

theorem get_projects_ordered_witness:
  "get_projects example_store =
     \<lparr>status = 200,
      body = Json (JRows
        [[(''id'', VInt 2), (''name'', VText ''Shop''), (''description'', VText ''Rebuild''),
          (''status'', VText ''new''), (''created_at'', VTime 2000)],
         [(''id'', VInt 1), (''name'', VText ''Site''), (''description'', VText ''Launch''),
          (''status'', VText ''new''), (''created_at'', VTime 1000)]])\<rparr>
   \<and> server_get_projects example_server_store =
     \<lparr>status = 200,
      body = Json (JRows
        [[(''id'', VInt 2), (''name'', VText ''Shop''), (''status'', VText ''open''),
          (''created_at'', VTime 2000)],
         [(''id'', VInt 1), (''name'', VText ''Site''), (''status'', VText ''new''),
          (''created_at'', VTime 1000)]])\<rparr>
   \<and> map p_id (projects example_store) = [1, 2]
   \<and> map p_created_at (projects example_store) = [Some 1000, Some 2000]
   \<and> map sp_id (server_projects example_server_store) = [1, 2]
   \<and> map sp_created_at (server_projects example_server_store) = [Some 1000, Some 2000]"
  using get_projects_ordered[of example_store example_server_store]
  by (simp add: example_order example_server_order project_row_def server_project_row_def)
    (simp add: example_store_def example_server_store_def)

section \<open>The invariants hold after every request\<close>

lemma invariants_empty: "keys_fresh empty_store" "files_on_disk empty_store"
  by (simp_all add: keys_fresh_def files_on_disk_def empty_store_def)

lemma keys_fresh_post_projects:
  assumes "keys_fresh s"
  shows "keys_fresh (snd (post_projects now req s))"
  using assms
  by (cases "pg_text (req_name req)")
    (force simp: keys_fresh_def post_projects_def insert_project_def Let_def)+

lemma keys_fresh_post_tasks:
  assumes "keys_fresh s"
  shows "keys_fresh (snd (post_tasks id_text title s))"
  using assms
  by (cases "pg_text title"; cases "pg_int4 id_text")
    (force simp: keys_fresh_def post_tasks_def insert_task_def Let_def)+

lemma keys_fresh_put_task:
  assumes "keys_fresh s"
  shows "keys_fresh (snd (put_task id_text s))"
proof (cases "pg_int4 id_text")
  case None
  then show ?thesis using assms by (simp add: put_task_refused)
next
  case (Some i)
  have "map t_id (map (toggle i) (tasks s)) = map t_id (tasks s)"
    by (simp add: t_id_toggle)
  moreover have "\<forall>t \<in> set (map (toggle i) (tasks s)). t_id t < tasks_id_seq s"
    using assms by (auto simp: keys_fresh_def t_id_toggle)
  ultimately show ?thesis
    using assms by (simp add: keys_fresh_def put_task_eq[OF Some] del: map_map set_map)
qed

lemma keys_fresh_post_upload:
  assumes "keys_fresh s"
  shows "keys_fresh (snd (post_upload now id_text prt s))"
  using assms
  by (cases prt; cases "pg_int4 id_text")
    (force simp: keys_fresh_def post_upload_def upload_single_def insert_file_def Let_def)+

lemma map_of_write_file:
  "map_of (write_file p c d) q = (if q = p then Some c else map_of d q)"
  by (induction d) (auto simp: write_file_def)

lemma files_on_disk_post_upload:
  assumes "files_on_disk s"
  shows "files_on_disk (snd (post_upload now id_text prt s))"
  using assms
  by (cases prt; cases "pg_int4 id_text")
    (auto simp: files_on_disk_def post_upload_def upload_single_def insert_file_def Let_def
      map_of_write_file)

lemma files_on_disk_others:
  assumes "files_on_disk s"
  shows "files_on_disk (snd (post_projects now req s))"
    and "files_on_disk (snd (post_tasks id_text title s))"
    and "files_on_disk (snd (put_task id_text s))"
proof -
  show "files_on_disk (snd (post_projects now req s))"
    using assms
    by (cases "pg_text (req_name req)")
      (auto simp: files_on_disk_def post_projects_def insert_project_def Let_def)
  show "files_on_disk (snd (post_tasks id_text title s))"
    using assms
    by (cases "pg_text title"; cases "pg_int4 id_text")
      (auto simp: files_on_disk_def post_tasks_def insert_task_def Let_def)
  show "files_on_disk (snd (put_task id_text s))"
    using assms
    by (cases "pg_int4 id_text")
      (auto simp: files_on_disk_def put_task_def update_task_done_def Let_def)
qed

end
